theory Spec2Isabelle
  imports Main "HOL-Library.Sublist"
begin

section \<open>The storage layer of \<^verbatim>\<open>turbo_parser.py\<close>\<close>

text \<open>
  The three SQLite tables created by \<^verbatim>\<open>init_database\<close>. Every table is a list of
  rows, together with the counter SQLite keeps for an \<^verbatim>\<open>AUTOINCREMENT\<close> key. The
  columns keep the names of the schema; \<^verbatim>\<open>supplier_id\<close> of the two later tables is
  prefixed, since a field name is declared once, and the column \<^verbatim>\<open>section\<close> is \<open>section_col\<close>.
\<close>

record supplier_row =
  row_id :: nat
  participant_number :: string
  name :: string
  bin :: string
  iin :: string
  rnn :: string
  supplier_id :: string
  detail_url :: string
  is_parsed :: bool
  is_failed :: bool
  retry_count :: int
  created_at :: string
  updated_at :: string

record detail_row =
  detail_id :: nat
  detail_supplier_id :: string
  section_col :: string
  field_name :: string
  field_value :: string
  detail_created_at :: string

record failed_row =
  failed_id :: nat
  page_number :: "int option"
  failed_supplier_id :: "string option"
  error_message :: string
  attempt_time :: string
  resolved :: bool

record database =
  suppliers :: "supplier_row list"
  suppliers_seq :: nat
  supplier_details :: "detail_row list"
  supplier_details_seq :: nat
  failed_attempts :: "failed_row list"
  failed_attempts_seq :: nat

text \<open>The database right after \<^verbatim>\<open>init_database\<close> on a fresh file.\<close>

definition empty_db :: database where
  "empty_db = \<lparr>suppliers = [], suppliers_seq = 0, supplier_details = [],
     supplier_details_seq = 0, failed_attempts = [], failed_attempts_seq = 0\<rparr>"

datatype db_error = IntegrityError

text \<open>
  A Python dict with string keys and string values, as \<^verbatim>\<open>process_single_page\<close> builds
  it; \<^verbatim>\<open>d.get(k, '')\<close> is \<open>dict_get\<close>.
\<close>

type_synonym pydict = "string \<rightharpoonup> string"

definition dict_get :: "pydict \<Rightarrow> string \<Rightarrow> string" where
  "dict_get d k = (case d k of None \<Rightarrow> [] | Some v \<Rightarrow> v)"

text \<open>
  \<^verbatim>\<open>INSERT OR REPLACE INTO suppliers (...)\<close>: every stored row that collides with the new
  one on a \<^verbatim>\<open>UNIQUE\<close> column (\<^verbatim>\<open>participant_number\<close>, \<^verbatim>\<open>supplier_id\<close>) is deleted, then
  the new row is inserted under a fresh key. The columns the statement does not list
  (\<^verbatim>\<open>is_failed\<close>, \<^verbatim>\<open>retry_count\<close>, \<^verbatim>\<open>created_at\<close>) take the defaults of the schema;
  \<open>cts\<close> is SQLite's \<^verbatim>\<open>CURRENT_TIMESTAMP\<close> at the time of the statement.
\<close>

definition collides :: "supplier_row \<Rightarrow> supplier_row \<Rightarrow> bool" where
  "collides new r =
     (participant_number r = participant_number new \<or> supplier_id r = supplier_id new)"

definition insert_or_replace_supplier ::
  "string \<Rightarrow> string \<Rightarrow> string \<Rightarrow> string \<Rightarrow> string \<Rightarrow> string \<Rightarrow> string \<Rightarrow> string \<Rightarrow> bool \<Rightarrow> string
     \<Rightarrow> database \<Rightarrow> database" where
  "insert_or_replace_supplier cts pn nm b i r sid url parsed upd db =
     (let new = \<lparr>row_id = Suc (suppliers_seq db), participant_number = pn, name = nm,
                  bin = b, iin = i, rnn = r, supplier_id = sid, detail_url = url,
                  is_parsed = parsed, is_failed = False, retry_count = 0,
                  created_at = cts, updated_at = upd\<rparr>
      in db\<lparr>suppliers := filter (\<lambda>old. \<not> collides new old) (suppliers db) @ [new],
            suppliers_seq := Suc (suppliers_seq db)\<rparr>)"

text \<open>\<^verbatim>\<open>DELETE FROM supplier_details WHERE supplier_id = ?\<close>\<close>

definition delete_details :: "string \<Rightarrow> database \<Rightarrow> database" where
  "delete_details sid db =
     db\<lparr>supplier_details := filter (\<lambda>d. detail_supplier_id d \<noteq> sid) (supplier_details db)\<rparr>"

text \<open>
  \<^verbatim>\<open>INSERT INTO supplier_details (supplier_id, section, field_name, field_value)\<close>: a plain
  insert, which raises \<^verbatim>\<open>sqlite3.IntegrityError\<close> when a stored row has the same
  \<^verbatim>\<open>(supplier_id, section, field_name)\<close>.
\<close>

definition same_detail_key :: "string \<Rightarrow> string \<Rightarrow> string \<Rightarrow> detail_row \<Rightarrow> bool" where
  "same_detail_key sid sec fld d =
     (detail_supplier_id d = sid \<and> section_col d = sec \<and> field_name d = fld)"

definition insert_detail ::
  "string \<Rightarrow> string \<Rightarrow> string \<Rightarrow> string \<Rightarrow> string \<Rightarrow> database \<Rightarrow> db_error + database" where
  "insert_detail cts sid sec fld val db =
     (if list_ex (same_detail_key sid sec fld) (supplier_details db) then Inl IntegrityError
      else Inr (db\<lparr>supplier_details := supplier_details db @
                  [\<lparr>detail_id = Suc (supplier_details_seq db), detail_supplier_id = sid,
                    section_col = sec, field_name = fld, field_value = val,
                    detail_created_at = cts\<rparr>],
                 supplier_details_seq := Suc (supplier_details_seq db)\<rparr>))"

text \<open>
  The loop \<^verbatim>\<open>for field_name, field_value in details.items()\<close> of \<^verbatim>\<open>save_supplier\<close>; the
  items of the dict are an association list in insertion order. The first insert that
  raises ends the loop.
\<close>

fun insert_details ::
  "string \<Rightarrow> string \<Rightarrow> (string \<times> string) list \<Rightarrow> database \<Rightarrow> db_error + database" where
  "insert_details cts sid [] db = Inr db"
| "insert_details cts sid ((fld, val) # rest) db =
     (case insert_detail cts sid ''basic'' fld val db of
        Inl e \<Rightarrow> Inl e
      | Inr db' \<Rightarrow> insert_details cts sid rest db')"

text \<open>
  \<^verbatim>\<open>save_supplier(supplier, details=None)\<close>. \<open>now\<close> is \<^verbatim>\<open>datetime.now().isoformat()\<close> and
  \<open>cts\<close> the database's \<^verbatim>\<open>CURRENT_TIMESTAMP\<close>. \<open>details\<close> is \<open>None\<close> for Python's
  \<^verbatim>\<open>None\<close> and otherwise the items of the dict. The test \<^verbatim>\<open>details and
  supplier.get('supplier_id')\<close> holds for a dict with at least one item and an identifier
  that is present and not the empty string. The statements run in one implicit
  transaction that \<^verbatim>\<open>conn.commit()\<close> ends: an exception is caught and logged and the
  connection is closed without a commit, so the stored database is the one before the call.
\<close>

definition save_supplier ::
  "string \<Rightarrow> string \<Rightarrow> pydict \<Rightarrow> (string \<times> string) list option \<Rightarrow> database \<Rightarrow> database" where
  "save_supplier now cts supplier details db =
     (let db1 = insert_or_replace_supplier cts
                  (dict_get supplier ''participant_number'') (dict_get supplier ''name'')
                  (dict_get supplier ''bin'') (dict_get supplier ''iin'')
                  (dict_get supplier ''rnn'') (dict_get supplier ''supplier_id'')
                  (dict_get supplier ''detail_url'') (details \<noteq> None) now db
      in case (details, supplier ''supplier_id'') of
           (Some (item # items), Some (c # cs)) \<Rightarrow>
             (case insert_details cts (c # cs) (item # items) (delete_details (c # cs) db1) of
                Inl e \<Rightarrow> db
              | Inr db2 \<Rightarrow> db2)
         | _ \<Rightarrow> db1)"

text \<open>The rows a query \<^verbatim>\<open>WHERE supplier_id = ?\<close> selects from either table.\<close>

definition suppliers_of :: "string \<Rightarrow> database \<Rightarrow> supplier_row list" where
  "suppliers_of sid db = filter (\<lambda>r. supplier_id r = sid) (suppliers db)"

definition details_of :: "string \<Rightarrow> database \<Rightarrow> detail_row list" where
  "details_of sid db = filter (\<lambda>d. detail_supplier_id d = sid) (supplier_details db)"

text \<open>A dict has each key once.\<close>

definition dict_items :: "(string \<times> string) list option \<Rightarrow> bool" where
  "dict_items details =
     (case details of None \<Rightarrow> True | Some items \<Rightarrow> distinct (map fst items))"

text \<open>
  \<^verbatim>\<open>log_failed_attempt(page, supplier_id, error)\<close>: an append to \<^verbatim>\<open>failed_attempts\<close>; the
  table has no uniqueness constraint, so the insert raises nothing. \<open>cts\<close> is
  \<^verbatim>\<open>CURRENT_TIMESTAMP\<close>, the default of \<^verbatim>\<open>attempt_time\<close>.
\<close>

definition log_failed_attempt ::
  "string \<Rightarrow> int option \<Rightarrow> string option \<Rightarrow> string \<Rightarrow> database \<Rightarrow> database" where
  "log_failed_attempt cts page sid error db =
     db\<lparr>failed_attempts := failed_attempts db @
          [\<lparr>failed_id = Suc (failed_attempts_seq db), page_number = page,
            failed_supplier_id = sid, error_message = error, attempt_time = cts,
            resolved = False\<rparr>],
        failed_attempts_seq := Suc (failed_attempts_seq db)\<rparr>"

section \<open>Strings\<close>

text \<open>\<^verbatim>\<open>sep in s\<close> for Python strings.\<close>

fun contains :: "string \<Rightarrow> string \<Rightarrow> bool" where
  "contains sep [] = (sep = [])"
| "contains sep (c # cs) = (prefix sep (c # cs) \<or> contains sep cs)"

text \<open>
  \<^verbatim>\<open>s.split(sep)\<close> for a separator that is not empty: the string is scanned from the left,
  and a match of the separator is skipped whole. \<open>cur\<close> is the piece read so far.
\<close>

function split_str :: "string \<Rightarrow> string \<Rightarrow> string \<Rightarrow> string list" where
  "split_str sep cur [] = [cur]"
| "split_str sep cur (c # cs) =
     (if sep \<noteq> [] \<and> prefix sep (c # cs)
      then cur # split_str sep [] (drop (length sep) (c # cs))
      else split_str sep (cur @ [c]) cs)"
  by pat_completeness auto
termination
  by (relation "measure (\<lambda>(sep, cur, s). length s)") auto

text \<open>\<^verbatim>\<open>s.lower()\<close> on the ASCII letters, for the names of operating-system processes.\<close>

definition lower_char :: "char \<Rightarrow> char" where
  "lower_char c =
     (let n = (of_char c :: nat) in if 65 \<le> n \<and> n \<le> 90 then char_of (n + 32) else c)"

definition lower :: "string \<Rightarrow> string" where
  "lower s = map lower_char s"

section \<open>The parser object and the world around it\<close>

text \<open>
  A listing page as \<^verbatim>\<open>process_single_page\<close> reads it through BeautifulSoup. A cell
  (\<^verbatim>\<open>td\<close>) has its stripped text and the result of \<^verbatim>\<open>find('a')\<close>: no anchor, or the first
  anchor with its \<^verbatim>\<open>href\<close> attribute if it has one. The document is what
  \<^verbatim>\<open>soup.find('table', {'id': 'search-result'})\<close> and \<^verbatim>\<open>table.find('tbody')\<close> give: no such
  table, a table without a body, or the cells of every \<^verbatim>\<open>tr\<close> of the body.
\<close>

record cell =
  cell_text :: string
  cell_link :: "string option option"

datatype listing = NoTable | NoTbody | Tbody "cell list list"

text \<open>
  What the browser does for one page: an exception somewhere between \<^verbatim>\<open>browser.get\<close> and
  the parse (a timeout of the 15 second wait, a navigation or parsing error), with its
  text \<^verbatim>\<open>str(e)\<close>, or a rendered document.
\<close>

datatype fetched = Raised string | Rendered listing

text \<open>
  The detail page of \<^verbatim>\<open>get_supplier_details\<close>: an exception, or the result of
  \<^verbatim>\<open>soup.find('table', class_='table table-striped')\<close>, the texts of the cells of each row.
\<close>

datatype fetched_detail = DetailRaised string | DetailRendered "string list list option"

record process =
  pid :: nat
  proc_name :: "string option"
  cmdline :: "string list option"

text \<open>The calls the parser makes to the world outside, in the order it makes them.\<close>

datatype effect =
    Mkdtemp nat
  | Get nat int
  | GetDetail nat string
  | Quit nat
  | Kill nat
  | Rmtree string
  | Sleep nat

text \<open>
  The world as the parser meets it. A session is named by its \<^verbatim>\<open>browser_id\<close>.
  \<open>creates i\<close>: \<^verbatim>\<open>create_stealth_browser(i)\<close> gets its driver; \<open>mkdtemp i\<close>: the profile
  directory made for it; \<open>fetch_page b p\<close> and \<open>fetch_detail b sid\<close>: what session \<open>b\<close>
  gets for a listing page or a detail page; \<open>process_iter\<close>: the processes psutil lists
  at cleanup; \<open>kill_refused\<close>: \<^verbatim>\<open>proc.kill()\<close> raises \<^verbatim>\<open>NoSuchProcess\<close> or
  \<^verbatim>\<open>AccessDenied\<close>; \<open>path_exists\<close>: \<^verbatim>\<open>os.path.exists\<close> at cleanup. The clocks give
  \<^verbatim>\<open>datetime.now().isoformat()\<close> and \<^verbatim>\<open>CURRENT_TIMESTAMP\<close> when the \<open>j\<close>-th supplier of a
  page is saved, and \<^verbatim>\<open>CURRENT_TIMESTAMP\<close> when a failure is logged.
\<close>

record env =
  creates :: "nat \<Rightarrow> bool"
  mkdtemp :: "nat \<Rightarrow> string"
  fetch_page :: "nat \<Rightarrow> int \<Rightarrow> fetched"
  fetch_detail :: "nat \<Rightarrow> string \<Rightarrow> fetched_detail"
  process_iter :: "process list"
  kill_refused :: "nat \<Rightarrow> bool"
  path_exists :: "string \<Rightarrow> bool"
  save_now :: "int \<Rightarrow> nat \<Rightarrow> string"
  save_cts :: "int \<Rightarrow> nat \<Rightarrow> string"
  failure_cts :: "int option \<Rightarrow> string option \<Rightarrow> string"

text \<open>
  The fields of \<^verbatim>\<open>TurboParallelParser\<close> that change or steer the run. \<open>db_file\<close> is the
  content of the SQLite file \<^verbatim>\<open>self.db_file\<close>; \<open>effects\<close> is the list of calls made so
  far. The storage is taken to be available: a statement fails only by a constraint.
\<close>

record parser =
  total_browsers :: nat
  processed_pages :: nat
  found_suppliers :: nat
  detailed_suppliers :: nat
  processed_suppliers :: "string set"
  duplicates_found :: nat
  failed_pages :: "int set"
  failed_suppliers :: "string set"
  browser_pool :: "nat list"
  browser_processes :: "nat list"
  temp_dirs :: "string list"
  is_shutting_down :: bool
  db_file :: database
  effects :: "effect list"

text \<open>The object after \<^verbatim>\<open>__init__\<close>, on the database \<open>d\<close>.\<close>

definition init_parser :: "nat \<Rightarrow> database \<Rightarrow> parser" where
  "init_parser n d =
     \<lparr>total_browsers = n, processed_pages = 0, found_suppliers = 0, detailed_suppliers = 0,
      processed_suppliers = {}, duplicates_found = 0, failed_pages = {},
      failed_suppliers = {}, browser_pool = [], browser_processes = [], temp_dirs = [],
      is_shutting_down = False, db_file = d, effects = []\<rparr>"

definition break_time :: nat where
  "break_time = 5"

definition call :: "effect \<Rightarrow> parser \<Rightarrow> parser" where
  "call e s = s\<lparr>effects := effects s @ [e]\<rparr>"

section \<open>Teardown\<close>

text \<open>
  \<^verbatim>\<open>close_all_browsers\<close>: \<^verbatim>\<open>quit()\<close> on every session of the pool; an exception of one
  \<^verbatim>\<open>quit()\<close> is logged and the loop goes on. Then the pool is cleared.
\<close>

definition close_all_browsers :: "parser \<Rightarrow> parser" where
  "close_all_browsers s =
     (if browser_pool s = [] then s
      else s\<lparr>effects := effects s @ map Quit (browser_pool s), browser_pool := []\<rparr>)"

text \<open>
  \<^verbatim>\<open>kill_chrome_processes\<close>: a process is killed when its name is present and contains
  \<^verbatim>\<open>chrome\<close> in lower case, and some argument of its command line contains
  \<^verbatim>\<open>user-data-dir\<close>. A kill that raises \<^verbatim>\<open>NoSuchProcess\<close> or \<^verbatim>\<open>AccessDenied\<close> is
  skipped and not counted; when at least one kill is counted, the parser sleeps 2 seconds.
\<close>

definition is_chrome_of_run :: "process \<Rightarrow> bool" where
  "is_chrome_of_run p =
     (case proc_name p of
        None \<Rightarrow> False
      | Some n \<Rightarrow> n \<noteq> [] \<and> contains ''chrome'' (lower n) \<and>
          list_ex (contains ''user-data-dir'') (case cmdline p of None \<Rightarrow> [] | Some args \<Rightarrow> args))"

definition kill_chrome_processes :: "env \<Rightarrow> parser \<Rightarrow> parser" where
  "kill_chrome_processes e s =
     (let victims = filter is_chrome_of_run (process_iter e);
          killed_count = length (filter (\<lambda>p. \<not> kill_refused e (pid p)) victims);
          s1 = s\<lparr>effects := effects s @ map (\<lambda>p. Kill (pid p)) victims\<rparr>
      in if killed_count > 0 then call (Sleep 2) s1 else s1)"

text \<open>
  \<^verbatim>\<open>cleanup_temp_dirs\<close>: \<^verbatim>\<open>shutil.rmtree(d, ignore_errors=True)\<close> on every recorded
  directory that exists; then the list is cleared.
\<close>

definition cleanup_temp_dirs :: "env \<Rightarrow> parser \<Rightarrow> parser" where
  "cleanup_temp_dirs e s =
     (if temp_dirs s = [] then s
      else s\<lparr>effects := effects s @ map Rmtree (filter (path_exists e) (temp_dirs s)),
             temp_dirs := []\<rparr>)"

definition cleanup_all :: "env \<Rightarrow> parser \<Rightarrow> parser" where
  "cleanup_all e s =
     (if is_shutting_down s then s
      else cleanup_temp_dirs e
             (kill_chrome_processes e (close_all_browsers (s\<lparr>is_shutting_down := True\<rparr>))))"

section \<open>The session pool\<close>

text \<open>
  \<^verbatim>\<open>create_stealth_browser(browser_id)\<close>: the profile directory is made and recorded
  before the \<^verbatim>\<open>try\<close>; a driver that starts is recorded in \<^verbatim>\<open>browser_processes\<close> and
  returned, any exception gives \<^verbatim>\<open>None\<close>.
\<close>

definition create_stealth_browser :: "env \<Rightarrow> nat \<Rightarrow> parser \<Rightarrow> nat option \<times> parser" where
  "create_stealth_browser e browser_id s =
     (let s1 = (call (Mkdtemp browser_id) s)\<lparr>temp_dirs := temp_dirs s @ [mkdtemp e browser_id]\<rparr>
      in if creates e browser_id
         then (Some browser_id, s1\<lparr>browser_processes := browser_processes s1 @ [browser_id]\<rparr>)
         else (None, s1))"

text \<open>
  One batch of \<^verbatim>\<open>init_browser_pool\<close>. The creations of a batch run on threads of their
  own and are collected as they complete; the model runs and collects them in the order
  of their identifiers.
\<close>

fun create_batch :: "env \<Rightarrow> nat list \<Rightarrow> parser \<Rightarrow> parser" where
  "create_batch e [] s = s"
| "create_batch e (i # ids) s =
     (case create_stealth_browser e i s of
        (Some browser, s1) \<Rightarrow>
          create_batch e ids (s1\<lparr>browser_pool := browser_pool s1 @ [browser]\<rparr>)
      | (None, s1) \<Rightarrow> create_batch e ids s1)"

definition batch_size :: nat where
  "batch_size = 50"

fun init_batches :: "env \<Rightarrow> nat \<Rightarrow> nat list \<Rightarrow> parser \<Rightarrow> parser" where
  "init_batches e total_batches [] s = s"
| "init_batches e total_batches (batch_num # rest) s =
     (if is_shutting_down s then s
      else
        (let start_idx = batch_num * batch_size;
             end_idx = min (start_idx + batch_size) (total_browsers s);
             s1 = create_batch e [start_idx..<end_idx] s;
             s2 = (if batch_num < total_batches - 1 then call (Sleep 2) s1 else s1)
         in init_batches e total_batches rest s2))"

definition init_browser_pool :: "env \<Rightarrow> parser \<Rightarrow> parser" where
  "init_browser_pool e s =
     (let total_batches = (total_browsers s + batch_size - 1) div batch_size
      in init_batches e total_batches [0..<total_batches] s)"

section \<open>Extraction tasks\<close>

definition marker :: string where
  "marker = ''/show_supplier/''"

text \<open>
  The body of the loop over the rows of \<^verbatim>\<open>process_single_page\<close>, on the cells of one
  row: \<open>found\<close> is the list \<^verbatim>\<open>suppliers\<close> that the task returns, \<open>s\<close> the parser.
\<close>

definition process_row :: "cell list \<Rightarrow> pydict list \<times> parser \<Rightarrow> pydict list \<times> parser" where
  "process_row cells acc =
     (case acc of (found, s) \<Rightarrow>
      (case cells of
         c0 # c1 # c2 # c3 # c4 # others \<Rightarrow>
           (let supplier = [''participant_number'' \<mapsto> cell_text c0, ''name'' \<mapsto> cell_text c1,
                  ''bin'' \<mapsto> cell_text c2, ''iin'' \<mapsto> cell_text c3, ''rnn'' \<mapsto> cell_text c4]
            in case cell_link c1 of
                 None \<Rightarrow> (found, s)
               | Some link \<Rightarrow>
                   (let href = (case link of None \<Rightarrow> [] | Some h \<Rightarrow> h)
                    in if contains marker href
                       then
                         (let sid = last (split_str marker [] href);
                              supplier' = supplier(''supplier_id'' \<mapsto> sid, ''detail_url'' \<mapsto> href)
                          in if sid \<notin> processed_suppliers s
                             then (found @ [supplier'],
                                   s\<lparr>processed_suppliers := insert sid (processed_suppliers s)\<rparr>)
                             else (found, s\<lparr>duplicates_found := duplicates_found s + 1\<rparr>))
                       else (found, s)))
       | _ \<Rightarrow> (found, s)))"

text \<open>
  The \<^verbatim>\<open>try\<close> block of \<^verbatim>\<open>process_single_page\<close>: \<open>Inl\<close> is an exception with its text.
\<close>

definition page_body :: "env \<Rightarrow> nat \<Rightarrow> int \<Rightarrow> parser \<Rightarrow> string + pydict list \<times> parser" where
  "page_body e browser page s =
     (let s1 = call (Get browser page) s
      in case fetch_page e browser page of
           Raised err \<Rightarrow> Inl err
         | Rendered NoTable \<Rightarrow> Inr ([], s1)
         | Rendered NoTbody \<Rightarrow> Inr ([], s1)
         | Rendered (Tbody rows) \<Rightarrow> Inr (fold process_row rows ([], s1)))"

text \<open>
  \<^verbatim>\<open>process_single_page(browser, page)\<close>, with its handler: the page goes into
  \<^verbatim>\<open>failed_pages\<close>, the failure is logged, the result is the empty list.
\<close>

definition process_single_page :: "env \<Rightarrow> nat \<Rightarrow> int \<Rightarrow> parser \<Rightarrow> pydict list \<times> parser" where
  "process_single_page e browser page s =
     (case page_body e browser page s of
        Inr r \<Rightarrow> r
      | Inl err \<Rightarrow>
          (let s1 = call (Get browser page) s;
               s2 = s1\<lparr>failed_pages := insert page (failed_pages s1)\<rparr>
           in ([], s2\<lparr>db_file := log_failed_attempt (failure_cts e (Some page) None)
                                     (Some page) None err (db_file s2)\<rparr>)))"

text \<open>
  \<^verbatim>\<open>details[key] = value\<close> on the items of a dict: a key that is present keeps its place.
\<close>

fun dict_set :: "(string \<times> string) list \<Rightarrow> string \<Rightarrow> string \<Rightarrow> (string \<times> string) list" where
  "dict_set [] k v = [(k, v)]"
| "dict_set ((k', v') # items) k v =
     (if k' = k then (k, v) # items else (k', v') # dict_set items k v)"

definition detail_row_fields :: "string list \<Rightarrow> (string \<times> string) list \<Rightarrow> (string \<times> string) list" where
  "detail_row_fields cells details =
     (case cells of [key, val] \<Rightarrow> dict_set details key val | _ \<Rightarrow> details)"

text \<open>\<^verbatim>\<open>get_supplier_details(browser, supplier_id)\<close>\<close>

definition get_supplier_details ::
  "env \<Rightarrow> nat \<Rightarrow> string \<Rightarrow> parser \<Rightarrow> (string \<times> string) list \<times> parser" where
  "get_supplier_details e browser sid s =
     (let s1 = call (GetDetail browser sid) s
      in case fetch_detail e browser sid of
           DetailRaised err \<Rightarrow>
             (let s2 = s1\<lparr>failed_suppliers := insert sid (failed_suppliers s1)\<rparr>
              in ([], s2\<lparr>db_file := log_failed_attempt (failure_cts e None (Some sid))
                                        None (Some sid) err (db_file s2)\<rparr>))
         | DetailRendered None \<Rightarrow> ([], s1)
         | DetailRendered (Some rows) \<Rightarrow> (fold detail_row_fields rows [], s1))"

section \<open>Rounds\<close>

datatype py_error = IndexError | ValueError

text \<open>
  The dispatch of \<^verbatim>\<open>parallel_round\<close>: \<^verbatim>\<open>for i, page in
  enumerate(pages[:len(self.browser_pool)])\<close> submits \<^verbatim>\<open>process_single_page\<close> with
  \<^verbatim>\<open>self.browser_pool[i]\<close> and \<^verbatim>\<open>page\<close>. A task is a pair of a session and a page.
\<close>

definition round_tasks :: "nat list \<Rightarrow> int list \<Rightarrow> (nat \<times> int) list" where
  "round_tasks pool pages =
     map (\<lambda>(i, page). (pool ! i, page)) (enumerate 0 (take (length pool) pages))"

text \<open>
  The tasks of a round run on threads of their own, and the main thread collects each
  result as it completes. The model runs the tasks one after the other in the order of
  their submission, then collects the results in that order. Each function returns the
  parser after every operation, oldest first: these are the values another thread, such as
  \<^verbatim>\<open>stats_monitor\<close>, can read while the round runs.
\<close>

fun run_tasks ::
  "env \<Rightarrow> (nat \<times> int) list \<Rightarrow> parser \<Rightarrow> (int \<times> pydict list) list \<times> parser list" where
  "run_tasks e [] s = ([], [])"
| "run_tasks e ((browser, page) # tasks) s =
     (case process_single_page e browser page s of
        (found, s1) \<Rightarrow>
          (case run_tasks e tasks s1 of
             (results, trace) \<Rightarrow> ((page, found) # results, s1 # trace)))"

text \<open>\<^verbatim>\<open>for supplier in suppliers: self.save_supplier(supplier)\<close>, for the result of \<open>page\<close>.\<close>

fun save_all :: "env \<Rightarrow> int \<Rightarrow> nat \<Rightarrow> pydict list \<Rightarrow> parser \<Rightarrow> parser list" where
  "save_all e page j [] s = []"
| "save_all e page j (supplier # rest) s =
     (let s1 = s\<lparr>db_file := save_supplier (save_now e page j) (save_cts e page j)
                               supplier None (db_file s)\<rparr>
      in s1 # save_all e page (Suc j) rest s1)"

text \<open>The loop over \<^verbatim>\<open>as_completed(future_to_page)\<close>.\<close>

fun collect :: "env \<Rightarrow> (int \<times> pydict list) list \<Rightarrow> parser \<Rightarrow> parser list" where
  "collect e [] s = []"
| "collect e ((page, found) # results) s =
     (let saved = save_all e page 0 found s;
          s1 = last (s # saved);
          s2 = s1\<lparr>processed_pages := processed_pages s1 + 1,
                  found_suppliers := found_suppliers s1 + length found\<rparr>
      in saved @ [s2] @ collect e results s2)"

text \<open>
  \<^verbatim>\<open>parallel_round(pages)\<close>. \<^verbatim>\<open>ThreadPoolExecutor(max_workers=0)\<close> raises
  \<^verbatim>\<open>ValueError\<close>. The result is \<^verbatim>\<open>len(all_suppliers)\<close>, with the tasks that were
  submitted and the parsers passed through.
\<close>

definition parallel_round ::
  "env \<Rightarrow> int list \<Rightarrow> parser \<Rightarrow> py_error + nat \<times> (nat \<times> int) list \<times> parser list" where
  "parallel_round e pages s =
     (if browser_pool s = [] then Inl ValueError
      else
        (let tasks = round_tasks (browser_pool s) pages
         in case run_tasks e tasks s of
              (results, task_trace) \<Rightarrow>
                Inr (length (concat (map snd results)), tasks,
                     task_trace @ collect e results (last (s # task_trace)))))"

text \<open>
  What a run leaves behind: the exception that ended the loop of rounds, if any, the
  tasks of every round, and the parsers passed through.
\<close>

record outcome =
  raised :: "py_error option"
  rounds :: "(nat \<times> int) list list"
  states :: "parser list"

text \<open>
  The \<^verbatim>\<open>while\<close> loop of \<^verbatim>\<open>run_turbo_parsing\<close>, at \<^verbatim>\<open>current_page_index = idx\<close>. The slice
  \<^verbatim>\<open>all_pages[idx:idx + len(self.browser_pool)]\<close> is \<open>take n (drop idx all_pages)\<close>;
  \<^verbatim>\<open>pages_for_round[0]\<close> in the banner of the round raises \<^verbatim>\<open>IndexError\<close> on an empty slice.
\<close>

function round_loop :: "env \<Rightarrow> int list \<Rightarrow> nat \<Rightarrow> parser \<Rightarrow> outcome" where
  "round_loop e all_pages idx s =
     (if idx < length all_pages \<and> \<not> is_shutting_down s
      then
        (let pages_for_round = take (length (browser_pool s)) (drop idx all_pages);
             idx' = idx + length pages_for_round
         in if pages_for_round = []
            then \<lparr>raised = Some IndexError, rounds = [], states = []\<rparr>
            else
              (case parallel_round e pages_for_round s of
                 Inl err \<Rightarrow> \<lparr>raised = Some err, rounds = [], states = []\<rparr>
               | Inr (suppliers_count, tasks, task_trace) \<Rightarrow>
                   (let s1 = last (s # task_trace);
                        s2 = (if idx' < length all_pages \<and> \<not> is_shutting_down s1
                              then call (Sleep break_time) s1 else s1);
                        r = round_loop e all_pages idx' s2
                    in r\<lparr>rounds := tasks # rounds r, states := task_trace @ [s2] @ states r\<rparr>)))
      else \<lparr>raised = None, rounds = [], states = []\<rparr>)"
  by pat_completeness auto
termination
  by (relation "measure (\<lambda>(e, all_pages, idx, s). length all_pages - idx)")
    (auto simp: min_def simp flip: length_greater_0_conv)

declare round_loop.simps [simp del]

text \<open>
  \<^verbatim>\<open>run_turbo_parsing(start_page, end_page)\<close>: the pool is created; with an empty pool the
  method returns at once; otherwise the rounds run over \<^verbatim>\<open>list(range(start_page, end_page
  + 1))\<close>. An exception of the loop is caught. On every path the \<^verbatim>\<open>finally\<close> clause calls
  \<^verbatim>\<open>cleanup_all\<close>.
\<close>

definition run_turbo_parsing :: "env \<Rightarrow> int \<Rightarrow> int \<Rightarrow> parser \<Rightarrow> outcome" where
  "run_turbo_parsing e start_page end_page s =
     (let s1 = init_browser_pool e s
      in if browser_pool s1 = []
         then \<lparr>raised = None, rounds = [], states = [s1, cleanup_all e s1]\<rparr>
         else
           (let r = round_loop e [start_page..end_page] 0 s1
            in r\<lparr>states := s1 # states r @ [cleanup_all e (last (s1 # states r))]\<rparr>))"

text \<open>The counters that \<^verbatim>\<open>print_turbo_stats\<close> reads under \<^verbatim>\<open>stats_lock\<close>.\<close>

record stats =
  stat_browsers :: nat
  stat_pages :: nat
  stat_found :: nat
  stat_detailed :: nat
  stat_duplicates :: nat

definition turbo_stats :: "parser \<Rightarrow> stats" where
  "turbo_stats s =
     \<lparr>stat_browsers = length (browser_pool s), stat_pages = processed_pages s,
      stat_found = found_suppliers s, stat_detailed = detailed_suppliers s,
      stat_duplicates = duplicates_found s\<rparr>"

section \<open>Two tasks on one identifier\<close>

text \<open>
  The duplicate check of \<^verbatim>\<open>process_single_page\<close>, statement by statement, as one thread
  runs it on a row with identifier \<open>row_sid\<close>:
  \<^verbatim>\<open>
  if supplier['supplier_id'] not in self.processed_suppliers:    # Check
      self.processed_suppliers.add(supplier['supplier_id'])      # Add
      suppliers.append(supplier)                                 # Append
  else:
      with self.stats_lock:                                      # Acquire
          self.duplicates_found += 1                             # Incr
                                                                 # Release
  \<close>
  The threads of a round share the parser and \<^verbatim>\<open>stats_lock\<close>; a thread can be suspended
  between any two statements.
\<close>

datatype pc = Check | Add | Append | Acquire | Incr | Release | Finished

record thread =
  at :: pc
  row_sid :: string
  accepted :: bool

record config =
  shared :: parser
  stats_lock :: "nat option"
  threads :: "thread list"

text \<open>Thread \<open>i\<close> runs its next statement; a thread waiting for the lock stays where it is.\<close>

definition step_thread :: "nat \<Rightarrow> config \<Rightarrow> config" where
  "step_thread i c =
     (if i < length (threads c) then
        (let t = threads c ! i; s = shared c
         in case at t of
              Check \<Rightarrow>
                c\<lparr>threads := (threads c)[i := t\<lparr>at :=
                     (if row_sid t \<notin> processed_suppliers s then Add else Acquire)\<rparr>]\<rparr>
            | Add \<Rightarrow>
                c\<lparr>shared := s\<lparr>processed_suppliers := insert (row_sid t) (processed_suppliers s)\<rparr>,
                  threads := (threads c)[i := t\<lparr>at := Append\<rparr>]\<rparr>
            | Append \<Rightarrow> c\<lparr>threads := (threads c)[i := t\<lparr>at := Finished, accepted := True\<rparr>]\<rparr>
            | Acquire \<Rightarrow>
                (if stats_lock c = None
                 then c\<lparr>stats_lock := Some i, threads := (threads c)[i := t\<lparr>at := Incr\<rparr>]\<rparr>
                 else c)
            | Incr \<Rightarrow>
                c\<lparr>shared := s\<lparr>duplicates_found := duplicates_found s + 1\<rparr>,
                  threads := (threads c)[i := t\<lparr>at := Release\<rparr>]\<rparr>
            | Release \<Rightarrow> c\<lparr>stats_lock := None, threads := (threads c)[i := t\<lparr>at := Finished\<rparr>]\<rparr>
            | Finished \<Rightarrow> c)
      else c)"

definition run_schedule :: "nat list \<Rightarrow> config \<Rightarrow> config" where
  "run_schedule schedule c = fold step_thread schedule c"

text \<open>Two tasks of one round that reach a row with the same identifier.\<close>

definition two_tasks :: "string \<Rightarrow> parser \<Rightarrow> config" where
  "two_tasks sid s =
     \<lparr>shared = s, stats_lock = None,
      threads = [\<lparr>at = Check, row_sid = sid, accepted = False\<rparr>,
                 \<lparr>at = Check, row_sid = sid, accepted = False\<rparr>]\<rparr>"

section \<open>Views of the stored rows\<close>

text \<open>The columns of a detail row that \<^verbatim>\<open>save_supplier\<close> writes.\<close>

definition detail_view :: "detail_row \<Rightarrow> string \<times> string \<times> string \<times> string" where
  "detail_view d = (detail_supplier_id d, section_col d, field_name d, field_value d)"

text \<open>
  The first statement of \<^verbatim>\<open>save_supplier\<close>, and the row it inserts under the key \<open>n\<close>.
\<close>

definition upsert :: "string \<Rightarrow> string \<Rightarrow> pydict \<Rightarrow> (string \<times> string) list option \<Rightarrow> database \<Rightarrow> database" where
  "upsert now cts supplier details db = insert_or_replace_supplier cts
                  (dict_get supplier ''participant_number'') (dict_get supplier ''name'')
                  (dict_get supplier ''bin'') (dict_get supplier ''iin'')
                  (dict_get supplier ''rnn'') (dict_get supplier ''supplier_id'')
                  (dict_get supplier ''detail_url'') (details \<noteq> None) now db"

definition new_supplier_row :: "nat \<Rightarrow> string \<Rightarrow> string \<Rightarrow> pydict \<Rightarrow> bool \<Rightarrow> supplier_row" where
  "new_supplier_row n now cts supplier parsed =
     \<lparr>row_id = n, participant_number = dict_get supplier ''participant_number'',
      name = dict_get supplier ''name'', bin = dict_get supplier ''bin'',
      iin = dict_get supplier ''iin'', rnn = dict_get supplier ''rnn'',
      supplier_id = dict_get supplier ''supplier_id'',
      detail_url = dict_get supplier ''detail_url'', is_parsed = parsed, is_failed = False,
      retry_count = 0, created_at = cts, updated_at = now\<rparr>"

text \<open>A stored supplier that has failed before and has been retried three times.\<close>

definition stored_row :: supplier_row where
  "stored_row = \<lparr>row_id = 1, participant_number = ''P1'', name = ''N'', bin = ''B'',
     iin = [], rnn = [], supplier_id = ''7'', detail_url = ''/show_supplier/7'',
     is_parsed = False, is_failed = True, retry_count = 3, created_at = ''c0'',
     updated_at = ''t0''\<rparr>"

section \<open>What an operation leaves alone\<close>

text \<open>The calls that ask a browser for a page, and those that ask for a detail page.\<close>

fun is_get :: "effect \<Rightarrow> bool" where
  "is_get (Get b p) = True"
| "is_get (GetDetail b sid) = True"
| "is_get x = False"

fun is_get_detail :: "effect \<Rightarrow> bool" where
  "is_get_detail (GetDetail b sid) = True"
| "is_get_detail x = False"

text \<open>
  \<open>kept s s'\<close>: from \<open>s\<close> to \<open>s'\<close> the pool, the shutdown flag and the counter of detailed
  suppliers are the same, and no detail page has been asked for. \<open>quiet s s'\<close>: the
  counters, the sets and the database are the same, and no page at all has been asked for.
  \<open>no_detail\<close> is what the two have in common.
\<close>

definition kept :: "parser \<Rightarrow> parser \<Rightarrow> bool" where
  "kept s s' =
     (detailed_suppliers s' = detailed_suppliers s \<and> browser_pool s' = browser_pool s \<and>
      is_shutting_down s' = is_shutting_down s \<and>
      filter is_get_detail (effects s') = filter is_get_detail (effects s))"

definition quiet :: "parser \<Rightarrow> parser \<Rightarrow> bool" where
  "quiet s s' =
     (processed_pages s' = processed_pages s \<and> found_suppliers s' = found_suppliers s \<and>
      detailed_suppliers s' = detailed_suppliers s \<and>
      duplicates_found s' = duplicates_found s \<and>
      processed_suppliers s' = processed_suppliers s \<and> failed_pages s' = failed_pages s \<and>
      failed_suppliers s' = failed_suppliers s \<and> db_file s' = db_file s \<and>
      total_browsers s' = total_browsers s \<and>
      filter is_get (effects s') = filter is_get (effects s) \<and>
      filter is_get_detail (effects s') = filter is_get_detail (effects s))"

definition no_detail :: "parser \<Rightarrow> parser \<Rightarrow> bool" where
  "no_detail s s' =
     (detailed_suppliers s' = detailed_suppliers s \<and>
      filter is_get_detail (effects s') = filter is_get_detail (effects s))"

text \<open>
  The calls \<^verbatim>\<open>kill_chrome_processes\<close> makes in the world \<open>e\<close>, and the state and the
  logged row that the handler of \<^verbatim>\<open>process_single_page\<close> leaves for an exception \<open>err\<close>.
\<close>

definition kill_effects :: "env \<Rightarrow> effect list" where
  "kill_effects e =
     map (\<lambda>p. Kill (pid p)) (filter is_chrome_of_run (process_iter e)) @
     (if list_ex (\<lambda>p. \<not> kill_refused e (pid p)) (filter is_chrome_of_run (process_iter e))
      then [Sleep 2] else [])"



section \<open>A sample world\<close>

text \<open>
  Five sessions are asked for and those with an even identifier start. Page 1 lists the
  suppliers 11 and 12, page 3 lists 11 again, page 2 times out, the other pages have no
  result table. One Chrome process of a run is alive. \<open>dead_env\<close> is the same world with
  no session starting.
\<close>

definition sample_row :: "string \<Rightarrow> cell list" where
  "sample_row sid =
     [\<lparr>cell_text = ''P-'' @ sid, cell_link = None\<rparr>,
      \<lparr>cell_text = ''Supplier'', cell_link = Some (Some (''/ru/registry/show_supplier/'' @ sid))\<rparr>,
      \<lparr>cell_text = ''123'', cell_link = None\<rparr>,
      \<lparr>cell_text = [], cell_link = None\<rparr>,
      \<lparr>cell_text = [], cell_link = None\<rparr>]"

definition sample_env :: env where
  "sample_env =
     \<lparr>creates = (\<lambda>i. even i),
      mkdtemp = (\<lambda>i. ''/tmp/chrome_profile_'' @ replicate i (CHR ''x'')),
      fetch_page = (\<lambda>b p. if p = 2 then Raised ''timeout''
                           else if p = 1 then Rendered (Tbody [sample_row ''11'', sample_row ''12''])
                           else if p = 3 then Rendered (Tbody [sample_row ''11''])
                           else Rendered NoTable),
      fetch_detail = (\<lambda>b sid. DetailRendered None),
      process_iter =
        [\<lparr>pid = 100, proc_name = Some ''Chrome.exe'',
           cmdline = Some [''chrome'', ''--user-data-dir=/tmp/p0'']\<rparr>,
         \<lparr>pid = 200, proc_name = Some ''python'', cmdline = Some []\<rparr>,
         \<lparr>pid = 300, proc_name = None, cmdline = None\<rparr>],
      kill_refused = (\<lambda>p. False),
      path_exists = (\<lambda>d. True),
      save_now = (\<lambda>p j. ''now''),
      save_cts = (\<lambda>p j. ''cts''),
      failure_cts = (\<lambda>p sid. ''cts'')\<rparr>"

definition dead_env :: env where
  "dead_env = sample_env\<lparr>creates := (\<lambda>i. False)\<rparr>"

definition sample_parser :: parser where
  "sample_parser = (init_parser 2 empty_db)\<lparr>browser_pool := [0, 1],
     temp_dirs := [''/tmp/a'', ''/tmp/b'']\<rparr>"

section \<open>Properties of the storage layer\<close>

lemma insert_detail_Inr:
  "insert_detail cts sid sec fld val db = Inr db' \<Longrightarrow>
     suppliers db' = suppliers db \<and> suppliers_seq db' = suppliers_seq db \<and>
     failed_attempts db' = failed_attempts db \<and> failed_attempts_seq db' = failed_attempts_seq db"
  by (auto simp: insert_detail_def split: if_splits)

lemma insert_details_frame:
  "insert_details cts sid items db = Inr db' \<Longrightarrow>
     suppliers db' = suppliers db \<and> suppliers_seq db' = suppliers_seq db \<and>
     failed_attempts db' = failed_attempts db \<and> failed_attempts_seq db' = failed_attempts_seq db"
proof (induction items arbitrary: db)
  case Nil
  then show ?case by simp
next
  case (Cons kv items)
  obtain k v where kv: "kv = (k, v)" by (cases kv)
  from Cons.prems kv obtain db1 where
    s1: "insert_detail cts sid ''basic'' k v db = Inr db1" and
    s2: "insert_details cts sid items db1 = Inr db'"
    by (auto split: sum.splits)
  from Cons.IH [OF s2] insert_detail_Inr [OF s1] show ?case by simp
qed

lemma insert_details_ok:
  "distinct (map fst items) \<Longrightarrow>
   \<not> list_ex (\<lambda>d. detail_supplier_id d = sid \<and> section_col d = ''basic'' \<and> field_name d \<in> fst ` set items) (supplier_details db) \<Longrightarrow>
   \<exists>db' news. insert_details cts sid items db = Inr db' \<and>
     supplier_details db' = supplier_details db @ news \<and>
     map detail_view news = map (\<lambda>(k, v). (sid, ''basic'', k, v)) items"
proof (induction items arbitrary: db)
  case Nil
  then show ?case by simp
next
  case (Cons kv items)
  obtain k v where kv: "kv = (k, v)" by (cases kv)
  define row where "row = \<lparr>detail_id = Suc (supplier_details_seq db), detail_supplier_id = sid,
                    section_col = ''basic'', field_name = k, field_value = v,
                    detail_created_at = cts\<rparr>"
  define db1 where "db1 = db\<lparr>supplier_details := supplier_details db @ [row],
                 supplier_details_seq := Suc (supplier_details_seq db)\<rparr>"
  from Cons.prems(2) kv have s1: "insert_detail cts sid ''basic'' k v db = Inr db1"
    by (auto simp: insert_detail_def same_detail_key_def list_ex_iff db1_def row_def)
  from Cons.prems kv have d: "distinct (map fst items)" and nk: "k \<notin> fst ` set items"
    by auto
  from Cons.prems(2) kv nk have free:
    "\<not> list_ex (\<lambda>d. detail_supplier_id d = sid \<and> section_col d = ''basic'' \<and> field_name d \<in> fst ` set items) (supplier_details db1)"
    by (auto simp: list_ex_iff db1_def row_def)
  from Cons.IH [OF d free] obtain db' news where
    r: "insert_details cts sid items db1 = Inr db'" and
    a: "supplier_details db' = supplier_details db1 @ news" and
    v: "map detail_view news = map (\<lambda>(k, v). (sid, ''basic'', k, v)) items"
    by blast
  from r s1 kv have "insert_details cts sid (kv # items) db = Inr db'" by simp
  moreover from a have "supplier_details db' = supplier_details db @ (row # news)"
    by (simp add: db1_def)
  moreover from v kv have "map detail_view (row # news) =
       map (\<lambda>(k, v). (sid, ''basic'', k, v)) (kv # items)"
    by (simp add: detail_view_def row_def)
  ultimately show ?case by blast
qed

lemma suppliers_of_upsert:
  "suppliers_of (dict_get supplier ''supplier_id'') (upsert now cts supplier details db) =
     [new_supplier_row (Suc (suppliers_seq db)) now cts supplier (details \<noteq> None)]"
  by (simp add: upsert_def suppliers_of_def insert_or_replace_supplier_def collides_def
      new_supplier_row_def Let_def filter_empty_conv)

lemma details_upsert:
  "supplier_details (upsert now cts supplier details db) = supplier_details db"
  by (simp add: upsert_def insert_or_replace_supplier_def Let_def)

lemma save_supplier_plain:
  "details = None \<or> details = Some [] \<or> supplier ''supplier_id'' = None \<or> supplier ''supplier_id'' = Some [] \<Longrightarrow>
   save_supplier now cts supplier details db = upsert now cts supplier details db"
  by (auto simp: save_supplier_def upsert_def Let_def split: option.splits list.splits)

lemma save_supplier_with_details:
  assumes "supplier ''supplier_id'' = Some sid" "sid \<noteq> []" "items \<noteq> []" "distinct (map fst items)"
  shows "\<exists>news. suppliers (save_supplier now cts supplier (Some items) db) =
       suppliers (upsert now cts supplier (Some items) db) \<and>
     supplier_details (save_supplier now cts supplier (Some items) db) =
       filter (\<lambda>d. detail_supplier_id d \<noteq> sid) (supplier_details db) @ news \<and>
     map detail_view news = map (\<lambda>(k, v). (sid, ''basic'', k, v)) items"
proof -
  let ?db1 = "upsert now cts supplier (Some items) db"
  have free: "\<not> list_ex (\<lambda>d. detail_supplier_id d = sid \<and> section_col d = ''basic'' \<and>
      field_name d \<in> fst ` set items) (supplier_details (delete_details sid ?db1))"
    by (simp add: delete_details_def list_ex_iff)
  from insert_details_ok [OF assms(4) free, of cts] obtain db2 news where
    r: "insert_details cts sid items (delete_details sid ?db1) = Inr db2" and
    a: "supplier_details db2 = supplier_details (delete_details sid ?db1) @ news" and
    v: "map detail_view news = map (\<lambda>(k, v). (sid, ''basic'', k, v)) items"
    by blast
  from assms r have eq: "save_supplier now cts supplier (Some items) db = db2"
    by (cases sid; cases items) (simp_all add: save_supplier_def upsert_def Let_def)
  from insert_details_frame [OF r] have "suppliers db2 = suppliers ?db1"
    by (simp add: delete_details_def)
  moreover from a have "supplier_details db2 =
       filter (\<lambda>d. detail_supplier_id d \<noteq> sid) (supplier_details db) @ news"
    by (simp add: delete_details_def details_upsert)
  ultimately show ?thesis using v eq by blast
qed

lemma suppliers_save_supplier:
  assumes "dict_items details"
  shows "suppliers (save_supplier now cts supplier details db) =
         suppliers (upsert now cts supplier details db)"
proof (cases "details = None \<or> details = Some [] \<or> supplier ''supplier_id'' = None \<or> supplier ''supplier_id'' = Some []")
  case True
  then show ?thesis by (simp add: save_supplier_plain)
next
  case False
  then obtain items sid where d: "details = Some items" "items \<noteq> []"
    and s: "supplier ''supplier_id'' = Some sid" "sid \<noteq> []"
    by auto
  from assms d have "distinct (map fst items)" by (simp add: dict_items_def)
  with s d save_supplier_with_details [of supplier sid items now cts db] show ?thesis
    by auto
qed

lemma suppliers_of_save_supplier:
  assumes "dict_items details"
  shows "suppliers_of (dict_get supplier ''supplier_id'') (save_supplier now cts supplier details db) =
     [new_supplier_row (Suc (suppliers_seq db)) now cts supplier (details \<noteq> None)]"
  using suppliers_save_supplier [OF assms, of now cts supplier db]
    suppliers_of_upsert [of supplier now cts details db]
  by (simp add: suppliers_of_def)

lemma detail_view_sid:
  "map detail_view news = map (\<lambda>(k, v). (sid, ''basic'', k, v)) items \<Longrightarrow>
   filter (\<lambda>d. detail_supplier_id d = sid) news = news \<and>
   filter (\<lambda>d. detail_supplier_id d \<noteq> sid) news = []"
proof (induction news arbitrary: items)
  case Nil
  then show ?case by simp
next
  case (Cons d news)
  then obtain kv rest where i: "items = kv # rest" by (cases items) auto
  with Cons.prems have hd: "detail_view d = (\<lambda>(k, v). (sid, ''basic'', k, v)) kv"
    and tl: "map detail_view news = map (\<lambda>(k, v). (sid, ''basic'', k, v)) rest"
    by simp_all
  from hd have "detail_supplier_id d = sid"
    by (cases kv) (simp add: detail_view_def)
  with Cons.IH [OF tl] show ?case by simp
qed

text \<open>
  Claim C2. Saving the same supplier, with the same details, twice leaves exactly one
  row of \<^verbatim>\<open>suppliers\<close> for its \<^verbatim>\<open>supplier_id\<close>, and \<^verbatim>\<open>updated_at\<close> of that row is the
  time \<open>t2\<close> of the second call. This holds on every database.
\<close>

theorem save_supplier_twice_one_row:
  assumes "dict_items details"
  shows "map updated_at (suppliers_of (dict_get supplier ''supplier_id'')
           (save_supplier t2 c2 supplier details (save_supplier t1 c1 supplier details db))) = [t2]"
  using suppliers_of_save_supplier [OF assms, of supplier t2 c2 "save_supplier t1 c1 supplier details db"]
  by (simp add: new_supplier_row_def)

theorem save_supplier_twice_one_row_witness:
  "dict_items (Some [(''A'', ''1'')]) \<and>
   map updated_at (suppliers_of (dict_get [''supplier_id'' \<mapsto> ''7'', ''name'' \<mapsto> ''N''] ''supplier_id'')
     (save_supplier ''t2'' ''c2'' [''supplier_id'' \<mapsto> ''7'', ''name'' \<mapsto> ''N''] (Some [(''A'', ''1'')])
       (save_supplier ''t1'' ''c1'' [''supplier_id'' \<mapsto> ''7'', ''name'' \<mapsto> ''N''] (Some [(''A'', ''1'')])
          empty_db))) = [''t2'']"
proof -
  have h: "dict_items (Some [(''A'', ''1'')])" by (simp add: dict_items_def)
  from save_supplier_twice_one_row [OF h] h show ?thesis by blast
qed

text \<open>
  Claim C9. After \<^verbatim>\<open>save_supplier\<close> the one row of the supplier has \<^verbatim>\<open>is_failed\<close> false,
  \<^verbatim>\<open>retry_count\<close> 0 and \<^verbatim>\<open>created_at\<close> the time of the statement, whatever the database
  held for that supplier before.
\<close>

theorem save_supplier_resets_defaults:
  assumes "dict_items details"
  shows "map (\<lambda>r. (is_failed r, retry_count r, created_at r))
           (suppliers_of (dict_get supplier ''supplier_id'')
              (save_supplier now cts supplier details db)) = [(False, 0, cts)]"
  using suppliers_of_save_supplier [OF assms, of supplier now cts db]
  by (simp add: new_supplier_row_def)

theorem save_supplier_resets_defaults_witness:
  "dict_items None \<and>
   map (\<lambda>r. (is_failed r, retry_count r, created_at r))
     (suppliers_of ''7'' (empty_db\<lparr>suppliers := [stored_row], suppliers_seq := 1\<rparr>)) =
     [(True, 3, ''c0'')] \<and>
   map (\<lambda>r. (is_failed r, retry_count r, created_at r))
     (suppliers_of (dict_get [''supplier_id'' \<mapsto> ''7'', ''participant_number'' \<mapsto> ''P1''] ''supplier_id'')
        (save_supplier ''t1'' ''c1'' [''supplier_id'' \<mapsto> ''7'', ''participant_number'' \<mapsto> ''P1''] None
           (empty_db\<lparr>suppliers := [stored_row], suppliers_seq := 1\<rparr>))) = [(False, 0, ''c1'')]"
proof -
  have h: "dict_items None" by (simp add: dict_items_def)
  have "map (\<lambda>r. (is_failed r, retry_count r, created_at r))
     (suppliers_of ''7'' (empty_db\<lparr>suppliers := [stored_row], suppliers_seq := 1\<rparr>)) =
     [(True, 3, ''c0'')]"
    by (simp add: suppliers_of_def empty_db_def stored_row_def)
  with save_supplier_resets_defaults [OF h] h show ?thesis by blast
qed

text \<open>
  Claim C4, amended. For an identifier that is present and not the empty string, saving
  a dict of details with at least one item leaves, as the detail rows of that identifier,
  exactly the items of the dict under the section \<^verbatim>\<open>basic\<close>, in their order, and leaves the
  detail rows of every other identifier as they were. Saving with an empty dict or with no
  details leaves \<^verbatim>\<open>supplier_details\<close> as it was.
\<close>

theorem save_supplier_replaces_details:
  assumes "supplier ''supplier_id'' = Some sid" and "sid \<noteq> []"
    and "items \<noteq> []" and "distinct (map fst items)"
  shows "map detail_view (details_of sid (save_supplier now cts supplier (Some items) db)) =
           map (\<lambda>(k, v). (sid, ''basic'', k, v)) items \<and>
         filter (\<lambda>d. detail_supplier_id d \<noteq> sid)
             (supplier_details (save_supplier now cts supplier (Some items) db)) =
           filter (\<lambda>d. detail_supplier_id d \<noteq> sid) (supplier_details db) \<and>
         supplier_details (save_supplier now cts supplier (Some []) db) = supplier_details db \<and>
         supplier_details (save_supplier now cts supplier None db) = supplier_details db"
proof -
  from assms save_supplier_with_details [of supplier sid items now cts db] obtain news where
    a: "supplier_details (save_supplier now cts supplier (Some items) db) =
       filter (\<lambda>d. detail_supplier_id d \<noteq> sid) (supplier_details db) @ news" and
    v: "map detail_view news = map (\<lambda>(k, v). (sid, ''basic'', k, v)) items"
    by blast
  note f = detail_view_sid [OF v]
  from a f have "details_of sid (save_supplier now cts supplier (Some items) db) = news"
    by (simp add: details_of_def)
  with v have "map detail_view (details_of sid (save_supplier now cts supplier (Some items) db)) =
           map (\<lambda>(k, v). (sid, ''basic'', k, v)) items"
    by simp
  moreover from a f have "filter (\<lambda>d. detail_supplier_id d \<noteq> sid)
             (supplier_details (save_supplier now cts supplier (Some items) db)) =
           filter (\<lambda>d. detail_supplier_id d \<noteq> sid) (supplier_details db)"
    by simp
  moreover have "supplier_details (save_supplier now cts supplier (Some []) db) = supplier_details db"
    by (simp add: save_supplier_plain details_upsert)
  moreover have "supplier_details (save_supplier now cts supplier None db) = supplier_details db"
    by (simp add: save_supplier_plain details_upsert)
  ultimately show ?thesis by blast
qed

theorem save_supplier_replaces_details_witness:
  "[''supplier_id'' \<mapsto> ''7''] ''supplier_id'' = Some ''7'' \<and> ''7'' \<noteq> [] \<and>
   [(''C'', ''3'')] \<noteq> [] \<and> distinct (map fst [(''C'', ''3'')]) \<and>
   map detail_view (supplier_details
     (save_supplier ''t1'' ''c1'' [''supplier_id'' \<mapsto> ''7'']
        (Some [(''A'', ''1''), (''B'', ''2'')]) empty_db)) =
     [(''7'', ''basic'', ''A'', ''1''), (''7'', ''basic'', ''B'', ''2'')] \<and>
   map detail_view (details_of ''7''
     (save_supplier ''t2'' ''c2'' [''supplier_id'' \<mapsto> ''7''] (Some [(''C'', ''3'')])
        (save_supplier ''t1'' ''c1'' [''supplier_id'' \<mapsto> ''7'']
           (Some [(''A'', ''1''), (''B'', ''2'')]) empty_db))) = [(''7'', ''basic'', ''C'', ''3'')]"
proof -
  have h1: "[''supplier_id'' \<mapsto> ''7''] ''supplier_id'' = Some ''7''" by simp
  have h2: "''7'' \<noteq> []" by simp
  have h3: "[(''C'', ''3'')] \<noteq> []" by simp
  have h4: "distinct (map fst [(''C'', ''3'')])" by simp
  have before: "map detail_view (supplier_details
     (save_supplier ''t1'' ''c1'' [''supplier_id'' \<mapsto> ''7'']
        (Some [(''A'', ''1''), (''B'', ''2'')]) empty_db)) =
     [(''7'', ''basic'', ''A'', ''1''), (''7'', ''basic'', ''B'', ''2'')]"
    by (simp add: save_supplier_def insert_or_replace_supplier_def delete_details_def
        insert_detail_def same_detail_key_def empty_db_def Let_def detail_view_def dict_get_def)
  from h1 h2 h3 h4
    save_supplier_replaces_details [of "[''supplier_id'' \<mapsto> ''7'']" "''7''" "[(''C'', ''3'')]"]
  have "map detail_view (details_of ''7''
     (save_supplier ''t2'' ''c2'' [''supplier_id'' \<mapsto> ''7''] (Some [(''C'', ''3'')])
        (save_supplier ''t1'' ''c1'' [''supplier_id'' \<mapsto> ''7'']
           (Some [(''A'', ''1''), (''B'', ''2'')]) empty_db))) = [(''7'', ''basic'', ''C'', ''3'')]"
    by simp
  with h1 h2 h3 h4 before show ?thesis by blast
qed

text \<open>
  Claim C4 as stated, for every identifier, fails at the empty identifier, which
  \<^verbatim>\<open>process_single_page\<close> produces from a link that ends in \<^verbatim>\<open>/show_supplier/\<close>: the test
  \<^verbatim>\<open>details and supplier.get('supplier_id')\<close> is false, and the details are not stored.
\<close>

theorem save_supplier_empty_id_counterexample:
  "map detail_view (details_of []
     (save_supplier ''t1'' ''c1'' [''supplier_id'' \<mapsto> []] (Some [(''C'', ''3'')]) empty_db)) = [] \<and>
   map detail_view (details_of []
     (save_supplier ''t1'' ''c1'' [''supplier_id'' \<mapsto> []] (Some [(''C'', ''3'')]) empty_db)) \<noteq>
     [([], ''basic'', ''C'', ''3'')]"
  by (simp add: save_supplier_def insert_or_replace_supplier_def empty_db_def Let_def
      dict_get_def details_of_def)

section \<open>Properties of teardown\<close>

lemma cleanup_all_shut: "is_shutting_down s \<Longrightarrow> cleanup_all e s = s"
  by (simp add: cleanup_all_def)

lemma close_all_browsers_fields:
  "browser_pool (close_all_browsers s) = [] \<and>
   effects (close_all_browsers s) = effects s @ map Quit (browser_pool s) \<and>
   temp_dirs (close_all_browsers s) = temp_dirs s \<and>
   is_shutting_down (close_all_browsers s) = is_shutting_down s"
  by (simp add: close_all_browsers_def)

lemma kill_chrome_processes_fields:
  "browser_pool (kill_chrome_processes e s) = browser_pool s \<and>
   effects (kill_chrome_processes e s) = effects s @ kill_effects e \<and>
   temp_dirs (kill_chrome_processes e s) = temp_dirs s \<and>
   is_shutting_down (kill_chrome_processes e s) = is_shutting_down s"
  by (auto simp: kill_chrome_processes_def kill_effects_def call_def Let_def list_ex_iff
      filter_empty_conv)

lemma cleanup_temp_dirs_fields:
  "browser_pool (cleanup_temp_dirs e s) = browser_pool s \<and>
   effects (cleanup_temp_dirs e s) = effects s @ map Rmtree (filter (path_exists e) (temp_dirs s)) \<and>
   temp_dirs (cleanup_temp_dirs e s) = [] \<and>
   is_shutting_down (cleanup_temp_dirs e s) = is_shutting_down s"
  by (simp add: cleanup_temp_dirs_def)

text \<open>
  Claim C6. The first \<^verbatim>\<open>cleanup_all\<close> calls \<^verbatim>\<open>quit()\<close> on every session of the pool, kills
  every Chrome process of a run, removes every recorded scratch directory that exists, and
  leaves the pool and the list of scratch directories empty. A second call, in whatever
  world, changes nothing: the state after two calls is the state after one.
\<close>

theorem cleanup_all_idempotent:
  assumes "\<not> is_shutting_down s"
  shows "browser_pool (cleanup_all e s) = [] \<and> temp_dirs (cleanup_all e s) = [] \<and>
         effects (cleanup_all e s) =
           effects s @ map Quit (browser_pool s) @ kill_effects e @
           map Rmtree (filter (path_exists e) (temp_dirs s)) \<and>
         cleanup_all e' (cleanup_all e s) = cleanup_all e s"
proof -
  let ?s1 = "close_all_browsers (s\<lparr>is_shutting_down := True\<rparr>)"
  let ?s2 = "kill_chrome_processes e ?s1"
  from assms have c: "cleanup_all e s = cleanup_temp_dirs e ?s2"
    by (simp add: cleanup_all_def)
  have f1: "browser_pool ?s1 = [] \<and> effects ?s1 = effects s @ map Quit (browser_pool s) \<and>
      temp_dirs ?s1 = temp_dirs s \<and> is_shutting_down ?s1"
    using close_all_browsers_fields [of "s\<lparr>is_shutting_down := True\<rparr>"] by simp
  have f2: "browser_pool ?s2 = [] \<and>
      effects ?s2 = effects s @ map Quit (browser_pool s) @ kill_effects e \<and>
      temp_dirs ?s2 = temp_dirs s \<and> is_shutting_down ?s2"
    using kill_chrome_processes_fields [of e ?s1] f1 by simp
  have f3: "browser_pool (cleanup_all e s) = [] \<and> temp_dirs (cleanup_all e s) = [] \<and>
      effects (cleanup_all e s) =
        effects s @ map Quit (browser_pool s) @ kill_effects e @
        map Rmtree (filter (path_exists e) (temp_dirs s)) \<and>
      is_shutting_down (cleanup_all e s)"
    using cleanup_temp_dirs_fields [of e ?s2] f2 c by simp
  then have "cleanup_all e' (cleanup_all e s) = cleanup_all e s"
    by (simp add: cleanup_all_shut)
  with f3 show ?thesis by simp
qed

theorem cleanup_all_idempotent_witness:
  "\<not> is_shutting_down sample_parser \<and>
   browser_pool (cleanup_all sample_env sample_parser) = [] \<and>
   temp_dirs (cleanup_all sample_env sample_parser) = [] \<and>
   effects (cleanup_all sample_env sample_parser) =
     [Quit 0, Quit 1, Kill 100, Sleep 2, Rmtree ''/tmp/a'', Rmtree ''/tmp/b''] \<and>
   cleanup_all dead_env (cleanup_all sample_env sample_parser) =
     cleanup_all sample_env sample_parser"
proof -
  have h: "\<not> is_shutting_down sample_parser"
    by (simp add: sample_parser_def init_parser_def)
  have lw: "lower ''Chrome.exe'' = ''chrome.exe''" "lower ''python'' = ''python''"
    by code_simp+
  have k: "kill_effects sample_env = [Kill 100, Sleep 2]"
    by (simp add: kill_effects_def sample_env_def is_chrome_of_run_def lw)
  have p: "effects sample_parser = []" "browser_pool sample_parser = [0, 1]"
    "temp_dirs sample_parser = [''/tmp/a'', ''/tmp/b'']"
    by (simp_all add: sample_parser_def init_parser_def)
  have x: "path_exists sample_env = (\<lambda>d. True)"
    by (simp add: sample_env_def)
  from cleanup_all_idempotent [OF h, of sample_env dead_env] h show ?thesis
    by (simp add: k p x)
qed

section \<open>Properties of the extraction tasks\<close>

text \<open>
  Claim C7. A row with at least five cells whose name cell has no anchor with an
  \<^verbatim>\<open>href\<close> that contains \<^verbatim>\<open>/show_supplier/\<close> adds no record and leaves the parser as it is:
  no counter, no set and no stored row changes.
\<close>

theorem process_row_without_identifier:
  assumes "5 \<le> length cells"
    and "\<forall>h. cell_link (cells ! 1) = Some (Some h) \<longrightarrow> \<not> contains marker h"
  shows "process_row cells (found, s) = (found, s)"
proof -
  from assms(1) obtain c0 c1 c2 c3 c4 others where
    cells: "cells = c0 # c1 # c2 # c3 # c4 # others"
    by (auto simp: Suc_le_length_iff numeral_eq_Suc)
  have "\<not> contains marker []" by (simp add: marker_def)
  with assms(2) cells show ?thesis
    by (auto simp: process_row_def Let_def split: option.splits)
qed

theorem process_row_without_identifier_witness:
  "5 \<le> length (sample_row ''11'') \<and>
   cell_link (sample_row ''11'' ! 1) = Some (Some ''/ru/registry/show_supplier/11'') \<and>
   5 \<le> length ((sample_row ''11'')[1 := \<lparr>cell_text = ''Supplier'', cell_link = Some (Some ''/ru/registry/other/11'')\<rparr>]) \<and>
   \<not> contains marker ''/ru/registry/other/11'' \<and>
   process_row ((sample_row ''11'')[1 := \<lparr>cell_text = ''Supplier'', cell_link = Some (Some ''/ru/registry/other/11'')\<rparr>])
     ([], init_parser 1 empty_db) = ([], init_parser 1 empty_db) \<and>
   5 \<le> length (replicate 5 \<lparr>cell_text = ''x'', cell_link = None\<rparr>) \<and>
   cell_link (replicate 5 \<lparr>cell_text = ''x'', cell_link = None\<rparr> ! 1) = None \<and>
   process_row (replicate 5 \<lparr>cell_text = ''x'', cell_link = None\<rparr>)
     ([], init_parser 1 empty_db) = ([], init_parser 1 empty_db)"
proof -
  let ?other = "(sample_row ''11'')[1 := \<lparr>cell_text = ''Supplier'', cell_link = Some (Some ''/ru/registry/other/11'')\<rparr>]"
  let ?plain = "replicate 5 \<lparr>cell_text = ''x'', cell_link = None\<rparr>"
  have a1: "5 \<le> length ?other" by (simp add: sample_row_def)
  have n: "\<not> contains marker ''/ru/registry/other/11''" by (simp add: marker_def)
  have l: "cell_link (?other ! 1) = Some (Some ''/ru/registry/other/11'')"
    by (simp add: sample_row_def)
  with n have a2: "\<forall>h. cell_link (?other ! 1) = Some (Some h) \<longrightarrow> \<not> contains marker h"
    by simp
  have b1: "5 \<le> length ?plain" by simp
  have b0: "cell_link (?plain ! 1) = None" by simp
  then have b2: "\<forall>h. cell_link (?plain ! 1) = Some (Some h) \<longrightarrow> \<not> contains marker h"
    by simp
  have c: "5 \<le> length (sample_row ''11'')"
    "cell_link (sample_row ''11'' ! 1) = Some (Some ''/ru/registry/show_supplier/11'')"
    by (simp_all add: sample_row_def)
  from process_row_without_identifier [OF a1 a2, of "[]" "init_parser 1 empty_db"]
    process_row_without_identifier [OF b1 b2, of "[]" "init_parser 1 empty_db"]
    a1 n b1 b0 c
  show ?thesis by blast
qed



section \<open>The duplicate check under two threads\<close>

text \<open>
  Claim C1 fails on the code. The check and the insert are two statements outside
  \<^verbatim>\<open>stats_lock\<close>. When both threads run the check before either runs the insert, both
  accept the identifier and \<^verbatim>\<open>duplicates_found\<close> stays 0. When one thread finishes before
  the other starts, one accepts and the other counts a duplicate.
\<close>

theorem two_tasks_both_accept:
  "map accepted (threads (run_schedule [0, 1, 0, 1, 0, 1] (two_tasks ''7'' (init_parser 2 empty_db)))) = [True, True] \<and>
   map at (threads (run_schedule [0, 1, 0, 1, 0, 1] (two_tasks ''7'' (init_parser 2 empty_db)))) = [Finished, Finished] \<and>
   duplicates_found (shared (run_schedule [0, 1, 0, 1, 0, 1] (two_tasks ''7'' (init_parser 2 empty_db)))) = 0 \<and>
   map accepted (threads (run_schedule [0, 0, 0, 1, 1, 1, 1] (two_tasks ''7'' (init_parser 2 empty_db)))) = [True, False] \<and>
   duplicates_found (shared (run_schedule [0, 0, 0, 1, 1, 1, 1] (two_tasks ''7'' (init_parser 2 empty_db)))) = 1"
  by (simp add: run_schedule_def two_tasks_def step_thread_def init_parser_def Let_def)

section \<open>What the tasks and the rounds leave alone\<close>

lemma kept_refl: "kept s s"
  by (simp add: kept_def)

lemma kept_trans: "kept s s1 \<Longrightarrow> kept s1 s2 \<Longrightarrow> kept s s2"
  by (simp add: kept_def)

lemma kept_last: "\<forall>s' \<in> set trace. kept s s' \<Longrightarrow> kept s (last (s # trace))"
  by (cases "trace = []") (simp_all add: kept_refl)

lemma kept_process_row: "kept s (snd (process_row cells (found, s)))"
  by (simp add: process_row_def kept_def Let_def split: list.splits option.splits)

lemma kept_fold_process_row: "kept s (snd (fold process_row rows (found, s)))"
proof (induction rows arbitrary: found s)
  case Nil
  show ?case by (simp add: kept_refl)
next
  case (Cons cells rows)
  obtain found1 s1 where p: "process_row cells (found, s) = (found1, s1)"
    by (cases "process_row cells (found, s)")
  with kept_process_row [of s cells found] have "kept s s1" by simp
  from kept_trans [OF this Cons.IH [of s1 found1]] p show ?case by simp
qed

lemma kept_call: "\<not> is_get_detail x \<Longrightarrow> kept s (call x s)"
  by (simp add: kept_def call_def)

lemma kept_process_single_page: "kept s (snd (process_single_page e browser page s))"
proof (cases "fetch_page e browser page")
  case (Raised err)
  then show ?thesis
    by (simp add: process_single_page_def page_body_def kept_def call_def Let_def)
next
  case (Rendered doc)
  have c: "kept s (call (Get browser page) s)" by (simp add: kept_call)
  show ?thesis
  proof (cases doc)
    case (Tbody rows)
    with Rendered kept_trans [OF c kept_fold_process_row [of "call (Get browser page) s" rows "[]"]]
    show ?thesis by (simp add: process_single_page_def page_body_def Let_def)
  qed (use Rendered c in \<open>simp_all add: process_single_page_def page_body_def Let_def\<close>)
qed

lemma kept_run_tasks: "\<forall>s' \<in> set (snd (run_tasks e tasks s)). kept s s'"
proof (induction tasks arbitrary: s)
  case Nil
  show ?case by simp
next
  case (Cons task tasks)
  obtain browser page where t: "task = (browser, page)" by (cases task)
  obtain found s1 where p: "process_single_page e browser page s = (found, s1)"
    by (cases "process_single_page e browser page s")
  with kept_process_single_page [of s e browser page] have k: "kept s s1" by simp
  from t p have "set (snd (run_tasks e (task # tasks) s)) = insert s1 (set (snd (run_tasks e tasks s1)))"
    by (simp split: prod.splits)
  with k Cons.IH [of s1] show ?case by (auto intro: kept_trans)
qed

lemma kept_save_all: "\<forall>s' \<in> set (save_all e page j found s). kept s s'"
proof (induction found arbitrary: j s)
  case Nil
  show ?case by simp
next
  case (Cons supplier rest)
  let ?s1 = "s\<lparr>db_file := save_supplier (save_now e page j) (save_cts e page j)
                               supplier None (db_file s)\<rparr>"
  have k: "kept s ?s1" by (simp add: kept_def)
  have "set (save_all e page j (supplier # rest) s) = insert ?s1 (set (save_all e page (Suc j) rest ?s1))"
    by (simp add: Let_def)
  with k Cons.IH [of "Suc j" ?s1] show ?case by (auto intro: kept_trans)
qed

lemma kept_collect: "\<forall>s' \<in> set (collect e results s). kept s s'"
proof (induction results arbitrary: s)
  case Nil
  show ?case by simp
next
  case (Cons result results)
  obtain page found where r: "result = (page, found)" by (cases result)
  let ?saved = "save_all e page 0 found s"
  let ?s1 = "last (s # ?saved)"
  let ?s2 = "?s1\<lparr>processed_pages := processed_pages ?s1 + 1,
                  found_suppliers := found_suppliers ?s1 + length found\<rparr>"
  have k1: "kept s ?s1" by (rule kept_last [OF kept_save_all])
  have "kept ?s1 ?s2" by (simp add: kept_def)
  with k1 have k2: "kept s ?s2" by (rule kept_trans)
  from r have "set (collect e (result # results) s) =
      set ?saved \<union> insert ?s2 (set (collect e results ?s2))"
    by (simp add: Let_def)
  with kept_save_all [of e page 0 found s] k2 Cons.IH [of ?s2] show ?case
    by (auto intro: kept_trans)
qed

lemma parallel_round_Inr:
  assumes "browser_pool s \<noteq> []"
  shows "parallel_round e pages s =
     Inr (length (concat (map snd (fst (run_tasks e (round_tasks (browser_pool s) pages) s)))),
          round_tasks (browser_pool s) pages,
          snd (run_tasks e (round_tasks (browser_pool s) pages) s) @
          collect e (fst (run_tasks e (round_tasks (browser_pool s) pages) s))
            (last (s # snd (run_tasks e (round_tasks (browser_pool s) pages) s))))"
  using assms by (simp add: parallel_round_def Let_def split: prod.splits)

lemma kept_parallel_round:
  assumes "parallel_round e pages s = Inr (n, tasks, trace)"
  shows "\<forall>s' \<in> set trace. kept s s'"
proof -
  from assms have ne: "browser_pool s \<noteq> []"
    by (auto simp: parallel_round_def split: if_splits)
  let ?rt = "run_tasks e (round_tasks (browser_pool s) pages) s"
  from assms parallel_round_Inr [OF ne, of e pages]
  have tr: "trace = snd ?rt @ collect e (fst ?rt) (last (s # snd ?rt))"
    by (metis Inr_inject prod.inject)
  have k1: "\<forall>s' \<in> set (snd ?rt). kept s s'" by (rule kept_run_tasks)
  then have "kept s (last (s # snd ?rt))" by (rule kept_last)
  with kept_collect [of e "fst ?rt" "last (s # snd ?rt)"]
  have "\<forall>s' \<in> set (collect e (fst ?rt) (last (s # snd ?rt))). kept s s'"
    by (auto intro: kept_trans)
  with k1 tr show ?thesis by auto
qed

lemma round_tasks_zip: "round_tasks pool pages = zip pool pages"
proof (rule nth_equalityI)
  show "length (round_tasks pool pages) = length (zip pool pages)"
    by (simp add: round_tasks_def min.commute)
next
  fix i assume "i < length (round_tasks pool pages)"
  then have "i < length pool" "i < length pages"
    by (simp_all add: round_tasks_def)
  then show "round_tasks pool pages ! i = zip pool pages ! i"
    by (simp add: round_tasks_def nth_enumerate_eq)
qed

lemma round_loop_stop:
  "\<not> (idx < length all_pages \<and> \<not> is_shutting_down s) \<Longrightarrow>
   round_loop e all_pages idx s = \<lparr>raised = None, rounds = [], states = []\<rparr>"
  by (subst round_loop.simps) auto

lemma round_loop_step:
  assumes "idx < length all_pages" and "\<not> is_shutting_down s" and "browser_pool s \<noteq> []"
    and "pages = take (length (browser_pool s)) (drop idx all_pages)"
    and "parallel_round e pages s = Inr (n, tasks, trace)"
    and "s2 = (if idx + length pages < length all_pages \<and> \<not> is_shutting_down (last (s # trace))
               then call (Sleep break_time) (last (s # trace)) else last (s # trace))"
  shows "round_loop e all_pages idx s =
     (round_loop e all_pages (idx + length pages) s2)
       \<lparr>rounds := tasks # rounds (round_loop e all_pages (idx + length pages) s2),
        states := trace @ [s2] @ states (round_loop e all_pages (idx + length pages) s2)\<rparr>"
proof -
  from assms(1,3,4) have "pages \<noteq> []" by simp
  with assms show ?thesis
    by (subst round_loop.simps) (simp add: Let_def del: last.simps)
qed

lemma kept_round_loop: "\<forall>s' \<in> set (states (round_loop e all_pages idx s)). kept s s'"
proof (induction "length all_pages - idx" arbitrary: idx s rule: less_induct)
  case less
  show ?case
  proof (cases "idx < length all_pages \<and> \<not> is_shutting_down s")
    case False
    then show ?thesis by (simp add: round_loop_stop)
  next
    case True
    show ?thesis
    proof (cases "browser_pool s = []")
      case True
      with \<open>idx < length all_pages \<and> \<not> is_shutting_down s\<close> show ?thesis
        by (subst round_loop.simps) simp
    next
      case False
      define pages where "pages = take (length (browser_pool s)) (drop idx all_pages)"
      from False parallel_round_Inr [of s e pages] obtain n tasks trace where
        pr: "parallel_round e pages s = Inr (n, tasks, trace)" by blast
      define s2 where "s2 = (if idx + length pages < length all_pages \<and> \<not> is_shutting_down (last (s # trace))
               then call (Sleep break_time) (last (s # trace)) else last (s # trace))"
      from True False have step: "round_loop e all_pages idx s =
          (round_loop e all_pages (idx + length pages) s2)
            \<lparr>rounds := tasks # rounds (round_loop e all_pages (idx + length pages) s2),
             states := trace @ [s2] @ states (round_loop e all_pages (idx + length pages) s2)\<rparr>"
        by (intro round_loop_step [OF _ _ _ pages_def pr s2_def]) simp_all
      have kt: "\<forall>s' \<in> set trace. kept s s'" by (rule kept_parallel_round [OF pr])
      then have "kept s (last (s # trace))" by (rule kept_last)
      moreover have "kept (last (s # trace)) (call (Sleep break_time) (last (s # trace)))"
        by (rule kept_call) simp
      ultimately have k2: "kept s s2"
        unfolding s2_def by (auto intro: kept_trans simp del: last.simps)
      from True False have "0 < length pages" by (simp add: pages_def)
      with True have "length all_pages - (idx + length pages) < length all_pages - idx" by arith
      from less [OF this] have "\<forall>s' \<in> set (states (round_loop e all_pages (idx + length pages) s2)). kept s2 s'" .
      with k2 kt step show ?thesis by (auto intro: kept_trans)
    qed
  qed
qed

section \<open>The rounds of a run\<close>

lemma ceil_div_step:
  assumes "0 < n" and "0 < d"
  shows "Suc ((d - min n d + n - 1) div n) = (d + n - 1) div (n::nat)"
proof (cases "n \<le> d")
  case True
  with assms have a: "d - min n d + n - 1 = d - 1" by (simp add: min_def)
  from assms have "d + n - 1 = (d - 1) + n" by simp
  then have "(d + n - 1) div n = ((d - 1) + n) div n" by (rule arg_cong)
  also from assms div_add_self2 [of n "d - 1"] have "\<dots> = Suc ((d - 1) div n)" by simp
  finally show ?thesis by (simp only: a)
next
  case False
  then have "d - min n d + n - 1 = n - 1" by (simp add: min_def)
  moreover from assms False have "(d + n - 1) div n = 1"
    by (intro div_nat_eqI) simp_all
  ultimately show ?thesis using assms by simp
qed

lemma rounds_round_loop:
  assumes "browser_pool s = pool" and "pool \<noteq> []" and "\<not> is_shutting_down s"
  shows "raised (round_loop e all_pages idx s) = None \<and>
         concat (map (map snd) (rounds (round_loop e all_pages idx s))) = drop idx all_pages \<and>
         length (rounds (round_loop e all_pages idx s)) =
           (length all_pages - idx + length pool - 1) div length pool \<and>
         (\<forall>k < length (rounds (round_loop e all_pages idx s)).
            rounds (round_loop e all_pages idx s) ! k =
              zip pool (take (length pool) (drop (idx + k * length pool) all_pages)))"
  using assms
proof (induction "length all_pages - idx" arbitrary: idx s rule: less_induct)
  case less
  let ?n = "length pool"
  from less.prems have n: "0 < ?n" by simp
  show ?case
  proof (cases "idx < length all_pages")
    case False
    with n show ?thesis by (simp add: round_loop_stop)
  next
    case True
    define pages where "pages = take (length (browser_pool s)) (drop idx all_pages)"
    from less.prems parallel_round_Inr [of s e pages] obtain c tasks trace where
      pr: "parallel_round e pages s = Inr (c, tasks, trace)"
      and tasks: "tasks = round_tasks (browser_pool s) pages" by blast
    define s2 where "s2 = (if idx + length pages < length all_pages \<and> \<not> is_shutting_down (last (s # trace))
               then call (Sleep break_time) (last (s # trace)) else last (s # trace))"
    define r where "r = round_loop e all_pages (idx + length pages) s2"
    from True less.prems have step: "round_loop e all_pages idx s =
          r\<lparr>rounds := tasks # rounds r, states := trace @ [s2] @ states r\<rparr>"
      unfolding r_def by (intro round_loop_step [OF _ _ _ pages_def pr s2_def]) simp_all
    have "s2 \<in> set (states (round_loop e all_pages idx s))"
      by (simp add: step)
    with kept_round_loop [of e all_pages idx s] have "kept s s2" by blast
    with less.prems have p2: "browser_pool s2 = pool" "\<not> is_shutting_down s2"
      by (simp_all add: kept_def)
    from less.prems have m: "length pages = min ?n (length all_pages - idx)"
      by (simp add: pages_def min.commute)
    with True n have "length all_pages - (idx + length pages) < length all_pages - idx"
      by arith
    from less.hyps [OF this p2(1) less.prems(2) p2(2)] have
      ih1: "raised r = None" and
      ih2: "concat (map (map snd) (rounds r)) = drop (idx + length pages) all_pages" and
      ih3: "length (rounds r) = (length all_pages - (idx + length pages) + ?n - 1) div ?n" and
      ih4: "\<forall>k < length (rounds r). rounds r ! k =
              zip pool (take ?n (drop (idx + length pages + k * ?n) all_pages))"
      unfolding r_def by blast+
    from tasks less.prems have tz: "tasks = zip pool pages"
      by (simp add: round_tasks_zip)
    have "length pages \<le> ?n" by (simp add: m)
    then have ms: "map snd tasks = pages"
      by (simp add: tz map_snd_zip_take min_def)
    have g1: "raised (round_loop e all_pages idx s) = None"
      by (simp add: step ih1)
    have "pages @ drop (idx + length pages) all_pages = drop idx all_pages"
    proof -
      have "drop (idx + length pages) all_pages = drop (length pages) (drop idx all_pages)"
        by (simp add: add.commute)
      moreover have "pages = take (length pages) (drop idx all_pages)"
        unfolding pages_def by (simp add: min_def)
      ultimately show ?thesis by (metis append_take_drop_id)
    qed
    then have g2: "concat (map (map snd) (rounds (round_loop e all_pages idx s))) = drop idx all_pages"
      by (simp add: step ms ih2)
    from True have d: "0 < length all_pages - idx" by simp
    have "length all_pages - (idx + length pages) = length all_pages - idx - min ?n (length all_pages - idx)"
      by (simp add: m)
    with ih3 ceil_div_step [OF n d]
    have g3: "length (rounds (round_loop e all_pages idx s)) =
           (length all_pages - idx + ?n - 1) div ?n"
      by (simp add: step)
    have g4: "\<forall>k < length (rounds (round_loop e all_pages idx s)).
            rounds (round_loop e all_pages idx s) ! k =
              zip pool (take ?n (drop (idx + k * ?n) all_pages))"
    proof (intro allI impI)
      fix k assume k: "k < length (rounds (round_loop e all_pages idx s))"
      show "rounds (round_loop e all_pages idx s) ! k =
              zip pool (take ?n (drop (idx + k * ?n) all_pages))"
      proof (cases k)
        case 0
        with tz less.prems show ?thesis by (simp add: step pages_def)
      next
        case (Suc j)
        with k have j: "j < length (rounds r)" by (simp add: step)
        have "length pages = ?n"
        proof (rule ccontr)
          assume "length pages \<noteq> ?n"
          with m have "length pages = length all_pages - idx" by (simp add: min_def split: if_splits)
          with True ih3 n have "length (rounds r) = 0" by simp
          with j show False by simp
        qed
        with ih4 j Suc show ?thesis by (simp add: step add.assoc add.commute)
      qed
    qed
    from g1 g2 g3 g4 show ?thesis by blast
  qed
qed

lemma quiet_refl: "quiet s s"
  by (simp add: quiet_def)

lemma quiet_trans: "quiet s s1 \<Longrightarrow> quiet s1 s2 \<Longrightarrow> quiet s s2"
  by (simp add: quiet_def)

lemma quiet_create_stealth_browser:
  "quiet s (snd (create_stealth_browser e i s)) \<and>
   is_shutting_down (snd (create_stealth_browser e i s)) = is_shutting_down s"
  by (simp add: create_stealth_browser_def quiet_def call_def Let_def)

lemma quiet_create_batch:
  "quiet s (create_batch e ids s) \<and> is_shutting_down (create_batch e ids s) = is_shutting_down s"
proof (induction ids arbitrary: s)
  case Nil
  show ?case by (simp add: quiet_refl)
next
  case (Cons i ids)
  obtain b s1 where c: "create_stealth_browser e i s = (b, s1)"
    by (cases "create_stealth_browser e i s")
  with quiet_create_stealth_browser [of s e i]
  have q1: "quiet s s1" and f1: "is_shutting_down s1 = is_shutting_down s" by simp_all
  show ?case
  proof (cases b)
    case None
    with c Cons.IH [of s1] q1 f1 show ?thesis by (auto intro: quiet_trans)
  next
    case (Some browser)
    let ?s2 = "s1\<lparr>browser_pool := browser_pool s1 @ [browser]\<rparr>"
    from q1 f1 have "quiet s ?s2" "is_shutting_down ?s2 = is_shutting_down s"
      by (simp_all add: quiet_def)
    with Some c Cons.IH [of ?s2] show ?thesis by (auto intro: quiet_trans)
  qed
qed

lemma quiet_init_batches:
  "quiet s (init_batches e nb bs s) \<and>
   is_shutting_down (init_batches e nb bs s) = is_shutting_down s"
proof (induction bs arbitrary: s)
  case Nil
  show ?case by (simp add: quiet_refl)
next
  case (Cons batch_num rest)
  show ?case
  proof (cases "is_shutting_down s")
    case True
    then show ?thesis by (simp add: quiet_refl)
  next
    case False
    let ?s1 = "create_batch e [batch_num * batch_size..<
        min (batch_num * batch_size + batch_size) (total_browsers s)] s"
    let ?s2 = "if batch_num < nb - 1 then call (Sleep 2) ?s1 else ?s1"
    from quiet_create_batch [of s e] have "quiet s ?s1" "is_shutting_down ?s1 = is_shutting_down s"
      by simp_all
    moreover have "quiet ?s1 ?s2" "is_shutting_down ?s2 = is_shutting_down ?s1"
      by (simp_all add: quiet_def call_def)
    ultimately have "quiet s ?s2" "is_shutting_down ?s2 = is_shutting_down s"
      by (auto intro: quiet_trans)
    with False Cons.IH [of ?s2] show ?thesis
      by (auto simp: Let_def intro: quiet_trans)
  qed
qed

lemma quiet_init_browser_pool:
  "quiet s (init_browser_pool e s) \<and>
   is_shutting_down (init_browser_pool e s) = is_shutting_down s"
  by (simp add: init_browser_pool_def Let_def quiet_init_batches)

lemma filter_get_nothing:
  "filter is_get (map Quit bs) = []" "filter is_get (map (\<lambda>p. Kill (pid p)) ps) = []"
  "filter is_get (map Rmtree ds) = []"
  "filter is_get_detail (map Quit bs) = []" "filter is_get_detail (map (\<lambda>p. Kill (pid p)) ps) = []"
  "filter is_get_detail (map Rmtree ds) = []"
  by (simp_all add: filter_map o_def)

lemma quiet_cleanup_all: "quiet s (cleanup_all e s)"
  by (simp add: cleanup_all_def cleanup_temp_dirs_def kill_chrome_processes_def
      close_all_browsers_def call_def quiet_def Let_def filter_get_nothing)

lemma upto_pages:
  assumes "k * n + i < nat (b - a + 1)" and "i < n"
  shows "take n (drop (k * n) [a..b]) ! i = a + int (k * n + i)"
proof -
  from assms have "k * n + i < length [a..b]" by simp
  with assms have "take n (drop (k * n) [a..b]) ! i = [a..b] ! (k * n + i)" by simp
  also from assms have "\<dots> = a + int (k * n + i)" by (intro nth_upto) linarith
  finally show ?thesis .
qed

lemma sample_pool:
  "browser_pool (init_browser_pool sample_env (init_parser 5 empty_db)) = [0, 2, 4]"
  by (simp add: init_browser_pool_def batch_size_def init_parser_def sample_env_def
      create_stealth_browser_def call_def Let_def upt_rec)

lemma dead_pool:
  "browser_pool (init_browser_pool dead_env (init_parser 5 empty_db)) = []"
  by (simp add: init_browser_pool_def batch_size_def init_parser_def sample_env_def dead_env_def
      create_stealth_browser_def call_def Let_def upt_rec)

lemma states_run_nonempty: "states (run_turbo_parsing e start_page end_page s) \<noteq> []"
  by (simp add: run_turbo_parsing_def Let_def)

text \<open>
  Claim C3. With \<open>n\<close> live sessions and no shutdown, the run over the pages
  \<open>start_page\<close> to \<open>end_page\<close> ends without an exception after
  \<open>\<lceil>total / n\<rceil>\<close> rounds. Round \<open>k\<close> starts at the cursor \<open>k * n\<close> and submits
  \<open>min n (total - k * n)\<close> tasks, at most \<open>n\<close>: task \<open>i\<close> gives the page
  \<open>start_page + k * n + i\<close> to session \<open>i\<close> of the pool. The pages of all rounds, in
  order, are the page range.
\<close>

theorem run_turbo_parsing_rounds:
  fixes pool :: "nat list"
  assumes "browser_pool (init_browser_pool e s) = pool" and "pool \<noteq> []"
    and "\<not> is_shutting_down s"
  shows "raised (run_turbo_parsing e start_page end_page s) = None \<and>
         length (rounds (run_turbo_parsing e start_page end_page s)) =
           (nat (end_page - start_page + 1) + length pool - 1) div length pool \<and>
         (\<forall>k < length (rounds (run_turbo_parsing e start_page end_page s)).
            rounds (run_turbo_parsing e start_page end_page s) ! k =
              map (\<lambda>i. (pool ! i, start_page + int (k * length pool + i)))
                [0..<min (length pool) (nat (end_page - start_page + 1) - k * length pool)] \<and>
            length (rounds (run_turbo_parsing e start_page end_page s) ! k) \<le> length pool) \<and>
         concat (map (map snd) (rounds (run_turbo_parsing e start_page end_page s))) =
           [start_page..end_page]"
proof -
  let ?s1 = "init_browser_pool e s"
  let ?n = "length pool"
  let ?total = "nat (end_page - start_page + 1)"
  let ?r = "round_loop e [start_page..end_page] 0 ?s1"
  from assms quiet_init_browser_pool [of s e] have f: "\<not> is_shutting_down ?s1" by simp
  from assms have run: "rounds (run_turbo_parsing e start_page end_page s) = rounds ?r"
    "raised (run_turbo_parsing e start_page end_page s) = raised ?r"
    by (simp_all add: run_turbo_parsing_def Let_def)
  from rounds_round_loop [OF assms(1,2) f, of e "[start_page..end_page]" 0] have
    r1: "raised ?r = None" and
    r2: "concat (map (map snd) (rounds ?r)) = [start_page..end_page]" and
    r3: "length (rounds ?r) = (?total + ?n - 1) div ?n" and
    r4: "\<forall>k < length (rounds ?r). rounds ?r ! k =
           zip pool (take ?n (drop (k * ?n) [start_page..end_page]))"
    by simp_all
  have r5: "rounds ?r ! k =
              map (\<lambda>i. (pool ! i, start_page + int (k * ?n + i)))
                [0..<min ?n (?total - k * ?n)] \<and> length (rounds ?r ! k) \<le> ?n"
    if k: "k < length (rounds ?r)" for k
  proof -
    from r4 k have z: "rounds ?r ! k = zip pool (take ?n (drop (k * ?n) [start_page..end_page]))"
      by blast
    have "zip pool (take ?n (drop (k * ?n) [start_page..end_page])) =
       map (\<lambda>i. (pool ! i, start_page + int (k * ?n + i))) [0..<min ?n (?total - k * ?n)]"
    proof (rule nth_equalityI)
      show "length (zip pool (take ?n (drop (k * ?n) [start_page..end_page]))) =
         length (map (\<lambda>i. (pool ! i, start_page + int (k * ?n + i))) [0..<min ?n (?total - k * ?n)])"
        by simp
    next
      fix i assume "i < length (zip pool (take ?n (drop (k * ?n) [start_page..end_page])))"
      then have i: "i < ?n" "i < ?total - k * ?n" by simp_all
      then have "k * ?n + i < ?total" by arith
      from upto_pages [OF this i(1)] i
      show "zip pool (take ?n (drop (k * ?n) [start_page..end_page])) ! i =
         map (\<lambda>i. (pool ! i, start_page + int (k * ?n + i))) [0..<min ?n (?total - k * ?n)] ! i"
        by simp
    qed
    with z show ?thesis by simp
  qed
  from r1 r2 r3 r5 show ?thesis unfolding run by blast
qed

theorem run_turbo_parsing_rounds_witness:
  "browser_pool (init_browser_pool sample_env (init_parser 5 empty_db)) = [0, 2, 4] \<and>
   [0, 2, 4] \<noteq> ([] :: nat list) \<and> \<not> is_shutting_down (init_parser 5 empty_db) \<and>
   raised (run_turbo_parsing sample_env 1 7 (init_parser 5 empty_db)) = None \<and>
   length (rounds (run_turbo_parsing sample_env 1 7 (init_parser 5 empty_db))) = 3 \<and>
   rounds (run_turbo_parsing sample_env 1 7 (init_parser 5 empty_db)) ! 0 =
     [(0, 1), (2, 2), (4, 3)] \<and>
   rounds (run_turbo_parsing sample_env 1 7 (init_parser 5 empty_db)) ! 1 =
     [(0, 4), (2, 5), (4, 6)] \<and>
   rounds (run_turbo_parsing sample_env 1 7 (init_parser 5 empty_db)) ! 2 = [(0, 7)] \<and>
   concat (map (map snd) (rounds (run_turbo_parsing sample_env 1 7 (init_parser 5 empty_db)))) =
     [1..7]"
proof -
  let ?R = "rounds (run_turbo_parsing sample_env 1 7 (init_parser 5 empty_db))"
  have h2: "[0, 2, 4] \<noteq> ([] :: nat list)" by simp
  have h3: "\<not> is_shutting_down (init_parser 5 empty_db)" by (simp add: init_parser_def)
  note t = run_turbo_parsing_rounds [OF sample_pool h2 h3, of 1 7]
  from t have r: "raised (run_turbo_parsing sample_env 1 7 (init_parser 5 empty_db)) = None"
    by blast
  from t have l: "length ?R = 3" by simp
  from t have c: "concat (map (map snd) ?R) = [1..7]" by blast
  from t have a: "\<forall>k < length ?R. ?R ! k =
      map (\<lambda>i. ([0, 2, 4] ! i, 1 + int (k * length [0, 2, 4 :: nat] + i)))
        [0..<min (length [0, 2, 4 :: nat]) (nat (7 - 1 + 1) - k * length [0, 2, 4 :: nat])]"
    by blast
  from a l have "?R ! 0 = map (\<lambda>i. ([0, 2, 4] ! i, 1 + int (0 * length [0, 2, 4 :: nat] + i)))
        [0..<min (length [0, 2, 4 :: nat]) (nat (7 - 1 + 1) - 0 * length [0, 2, 4 :: nat])]"
    by simp
  then have r0: "?R ! 0 = [(0, 1), (2, 2), (4, 3)]" by (simp add: upt_rec)
  from a l have "?R ! 1 = map (\<lambda>i. ([0, 2, 4] ! i, 1 + int (1 * length [0, 2, 4 :: nat] + i)))
        [0..<min (length [0, 2, 4 :: nat]) (nat (7 - 1 + 1) - 1 * length [0, 2, 4 :: nat])]"
    by simp
  then have r1: "?R ! 1 = [(0, 4), (2, 5), (4, 6)]" by (simp add: upt_rec)
  from a l have "?R ! 2 = map (\<lambda>i. ([0, 2, 4] ! i, 1 + int (2 * length [0, 2, 4 :: nat] + i)))
        [0..<min (length [0, 2, 4 :: nat]) (nat (7 - 1 + 1) - 2 * length [0, 2, 4 :: nat])]"
    by simp
  then have r2: "?R ! 2 = [(0, 7)]" by (simp add: upt_rec)
  from sample_pool h2 h3 r l r0 r1 r2 c show ?thesis by blast
qed

text \<open>
  Claim C8. When no session is in the pool after \<^verbatim>\<open>init_browser_pool\<close>, the run has no
  round and no exception, and goes from the pool initialisation straight to
  \<^verbatim>\<open>cleanup_all\<close>. The counters, the sets and the database are those before the run, and no
  page has been asked for.
\<close>

theorem run_turbo_parsing_empty_pool:
  assumes "browser_pool (init_browser_pool e s) = []"
  shows "raised (run_turbo_parsing e start_page end_page s) = None \<and>
         rounds (run_turbo_parsing e start_page end_page s) = [] \<and>
         states (run_turbo_parsing e start_page end_page s) =
           [init_browser_pool e s, cleanup_all e (init_browser_pool e s)] \<and>
         quiet s (cleanup_all e (init_browser_pool e s)) \<and>
         filter is_get (effects (cleanup_all e (init_browser_pool e s))) =
           filter is_get (effects s)"
proof -
  from quiet_init_browser_pool [of s e] quiet_cleanup_all [of "init_browser_pool e s" e]
  have q: "quiet s (cleanup_all e (init_browser_pool e s))" by (blast intro: quiet_trans)
  then have "filter is_get (effects (cleanup_all e (init_browser_pool e s))) =
      filter is_get (effects s)"
    by (simp add: quiet_def)
  with q assms show ?thesis by (simp add: run_turbo_parsing_def Let_def)
qed

theorem run_turbo_parsing_empty_pool_witness:
  "browser_pool (init_browser_pool dead_env (init_parser 5 empty_db)) = [] \<and>
   raised (run_turbo_parsing dead_env 1 7 (init_parser 5 empty_db)) = None \<and>
   rounds (run_turbo_parsing dead_env 1 7 (init_parser 5 empty_db)) = [] \<and>
   length (states (run_turbo_parsing dead_env 1 7 (init_parser 5 empty_db))) = 2 \<and>
   last (states (run_turbo_parsing dead_env 1 7 (init_parser 5 empty_db))) =
     cleanup_all dead_env (init_browser_pool dead_env (init_parser 5 empty_db)) \<and>
   filter is_get (effects (cleanup_all dead_env (init_browser_pool dead_env (init_parser 5 empty_db)))) = []"
proof -
  have e: "effects (init_parser 5 empty_db) = []" by (simp add: init_parser_def)
  from run_turbo_parsing_empty_pool [OF dead_pool, of 1 7] dead_pool e show ?thesis
    by simp
qed

section \<open>The counter of detailed suppliers\<close>

lemma no_detail_kept: "kept s s' \<Longrightarrow> no_detail s s'"
  by (simp add: kept_def no_detail_def)

lemma no_detail_quiet: "quiet s s' \<Longrightarrow> no_detail s s'"
  by (simp add: quiet_def no_detail_def)

lemma no_detail_trans: "no_detail s s1 \<Longrightarrow> no_detail s1 s2 \<Longrightarrow> no_detail s s2"
  by (simp add: no_detail_def)

lemma no_detail_run:
  "\<forall>s' \<in> set (states (run_turbo_parsing e start_page end_page s)). no_detail s s'"
proof -
  let ?s1 = "init_browser_pool e s"
  have n1: "no_detail s ?s1"
    using quiet_init_browser_pool [of s e] by (simp add: no_detail_quiet)
  have nc: "no_detail s (cleanup_all e s2)" if "no_detail s s2" for s2
    using that quiet_cleanup_all [of s2 e] by (blast intro: no_detail_trans no_detail_quiet)
  show ?thesis
  proof (cases "browser_pool ?s1 = []")
    case True
    with n1 nc [OF n1] show ?thesis by (simp add: run_turbo_parsing_def Let_def)
  next
    case False
    let ?r = "round_loop e [start_page..end_page] 0 ?s1"
    have k: "\<forall>s' \<in> set (states ?r). kept ?s1 s'" by (rule kept_round_loop)
    then have nl: "\<forall>s' \<in> set (states ?r). no_detail s s'"
      using n1 by (blast intro: no_detail_trans no_detail_kept)
    from k have "kept ?s1 (last (?s1 # states ?r))" by (rule kept_last)
    with n1 have "no_detail s (last (?s1 # states ?r))"
      by (blast intro: no_detail_trans no_detail_kept)
    from nc [OF this] nl n1 False show ?thesis
      by (simp add: run_turbo_parsing_def Let_def del: last.simps)
  qed
qed

text \<open>
  Claim C10. In a run of a new parser, every state the run passes through has
  \<^verbatim>\<open>detailed_suppliers\<close> 0, the statistics read from it report 0 detailed suppliers, and
  no detail page has been asked for. \<^verbatim>\<open>get_supplier_details\<close>, which the run never
  calls, does not change the counter either.
\<close>

theorem detailed_suppliers_stays_zero:
  "detailed_suppliers (init_parser n d) = 0 \<and>
   (\<forall>s' \<in> set (states (run_turbo_parsing e start_page end_page (init_parser n d))).
      detailed_suppliers s' = 0 \<and> stat_detailed (turbo_stats s') = 0 \<and>
      filter is_get_detail (effects s') = []) \<and>
   detailed_suppliers (snd (get_supplier_details e browser sid s)) = detailed_suppliers s"
proof -
  have z: "detailed_suppliers (init_parser n d) = 0" "effects (init_parser n d) = []"
    by (simp_all add: init_parser_def)
  have "detailed_suppliers s' = 0 \<and> stat_detailed (turbo_stats s') = 0 \<and>
      filter is_get_detail (effects s') = []"
    if "s' \<in> set (states (run_turbo_parsing e start_page end_page (init_parser n d)))" for s'
    using no_detail_run [of e start_page end_page "init_parser n d"] that z
    by (auto simp: no_detail_def turbo_stats_def)
  moreover have "detailed_suppliers (snd (get_supplier_details e browser sid s)) = detailed_suppliers s"
    by (simp add: get_supplier_details_def call_def Let_def
        split: fetched_detail.splits option.splits)
  ultimately show ?thesis using z by blast
qed

theorem detailed_suppliers_stays_zero_witness:
  "detailed_suppliers (last (states (run_turbo_parsing sample_env 1 7 (init_parser 5 empty_db)))) = 0 \<and>
   stat_detailed (turbo_stats (hd (states (run_turbo_parsing sample_env 1 7 (init_parser 5 empty_db))))) = 0 \<and>
   filter is_get_detail
     (effects (last (states (run_turbo_parsing sample_env 1 7 (init_parser 5 empty_db))))) = []"
proof -
  let ?S = "states (run_turbo_parsing sample_env 1 7 (init_parser 5 empty_db))"
  have ne: "?S \<noteq> []" by (rule states_run_nonempty)
  then have m: "last ?S \<in> set ?S" "hd ?S \<in> set ?S" by simp_all
  from detailed_suppliers_stays_zero [of 5 empty_db sample_env 1 7]
  have "\<forall>s' \<in> set ?S. detailed_suppliers s' = 0 \<and> stat_detailed (turbo_stats s') = 0 \<and>
      filter is_get_detail (effects s') = []"
    by blast
  with m show ?thesis by blast
qed

end
